theory Spec2Isabelle
  imports Complex_Main
begin

section \<open>Python values used by the generator\<close>

text \<open>
  The generator of \<^verbatim>\<open>simopt/rng/mrg32k3a.py\<close> works on Python tuples and lists of
  unbounded integers and on floats. Tuples and lists are modelled as \<open>int list\<close>, an
  exception as the \<open>Inl\<close> branch of a sum, and a float as the real number it approximates
  (the lemmas \<open>py_int_truediv_approx\<close> and \<open>mrg32k3a_u_rounded\<close> below say how much
  rounding the results tolerate).
\<close>

datatype py_error = AssertionError | IndexError

text \<open>\<^verbatim>\<open>int(x)\<close> on a float: the integer part, rounding toward zero.\<close>

definition py_int :: "real \<Rightarrow> int" where
  "py_int x = (if x < 0 then \<lceil>x\<rceil> else \<lfloor>x\<rfloor>)"

text \<open>\<^verbatim>\<open>p / m\<close> on two integers (true division); the divisors of the source are non-zero constants.\<close>

definition py_truediv :: "int \<Rightarrow> int \<Rightarrow> real" where
  "py_truediv p m = real_of_int p / real_of_int m"

text \<open>\<^verbatim>\<open>xs[i:j]\<close> for constant bounds \<open>0 \<le> i \<le> j\<close>: a slice never raises, it is cut short.\<close>

definition py_slice :: "'a list \<Rightarrow> nat \<Rightarrow> nat \<Rightarrow> 'a list" where
  "py_slice xs i j = take (j - i) (drop i xs)"

text \<open>\<^verbatim>\<open>xs[i]\<close> for a constant index \<open>i \<ge> 0\<close>.\<close>

definition py_index :: "'a list \<Rightarrow> nat \<Rightarrow> py_error + 'a" where
  "py_index xs i = (if i < length xs then Inr (xs ! i) else Inl IndexError)"

text \<open>\<^verbatim>\<open>xs[i] = v\<close> for a constant index \<open>i \<ge> 0\<close>.\<close>

definition py_setitem :: "'a list \<Rightarrow> nat \<Rightarrow> 'a \<Rightarrow> py_error + 'a list" where
  "py_setitem xs i v = (if i < length xs then Inr (xs[i := v]) else Inl IndexError)"

section \<open>Constants\<close>

definition mrgnorm :: real where "mrgnorm = 2328306549295727688 / 10 ^ 28"
definition mrgm1 :: int where "mrgm1 = 4294967087"
definition mrgm2 :: int where "mrgm2 = 4294944443"
definition mrga12 :: int where "mrga12 = 1403580"
definition mrga13n :: int where "mrga13n = 810728"
definition mrga21 :: int where "mrga21 = 527612"
definition mrga23n :: int where "mrga23n = 1370589"

definition A1p0 :: "int list list" where
  "A1p0 = [[0, 1, 0], [0, 0, 1], [- mrga13n, mrga12, 0]]"

definition A2p0 :: "int list list" where
  "A2p0 = [[0, 1, 0], [0, 0, 1], [- mrga23n, 0, mrga21]]"

definition A1p47 :: "int list list" where
  "A1p47 = [[1362557480, 3230022138, 4278720212],
            [3427386258, 3848976950, 3230022138],
            [2109817045, 2441486578, 3848976950]]"

definition A2p47 :: "int list list" where
  "A2p47 = [[2920112852, 1965329198, 1177141043],
            [2135250851, 2920112852, 969184056],
            [296035385, 2135250851, 4267827987]]"

definition A1p94 :: "int list list" where
  "A1p94 = [[2873769531, 2081104178, 596284397],
            [4153800443, 1261269623, 2081104178],
            [3967600061, 1830023157, 1261269623]]"

definition A2p94 :: "int list list" where
  "A2p94 = [[1347291439, 2050427676, 736113023],
            [4102191254, 1347291439, 878627148],
            [1293500383, 4102191254, 745646810]]"

definition A1p141 :: "int list list" where
  "A1p141 = [[3230096243, 2131723358, 3262178024],
             [2882890127, 4088518247, 2131723358],
             [3991553306, 1282224087, 4088518247]]"

definition A2p141 :: "int list list" where
  "A2p141 = [[2196438580, 805386227, 4266375092],
             [4124675351, 2196438580, 2527961345],
             [94452540, 4124675351, 2825656399]]"

section \<open>Modular matrix arithmetic\<close>

text \<open>
  Modelled from the spec: the module \<^verbatim>\<open>matmodops\<close> that \<^verbatim>\<open>mrg32k3a.py\<close> imports
  (\<^verbatim>\<open>mat33_mat31_mult\<close>, \<^verbatim>\<open>mat33_mat33_mult\<close>, \<^verbatim>\<open>mat31_mod\<close>, \<^verbatim>\<open>mat33_mod\<close>,
  \<^verbatim>\<open>mat33_mat33_mod\<close>, \<^verbatim>\<open>mat33_power_mod\<close>) is not among the sources. The spec
  (section 4.1) describes it as integer arithmetic on fixed-size operands: "vector-mod
  (reduce a 3-vector componentwise into [0,m)), 3x3-by-3x1 multiply, 3x3-by-3x3 multiply,
  matrix-mod, and matrix power-mod (repeated-squaring exponentiation ...)". A 3-vector is a
  list of three integers and a 3x3 matrix a list of three rows, as the constants above
  are written. The functions are meant for operands of these sizes only.
\<close>

definition mat33_mat31_mult :: "int list list \<Rightarrow> int list \<Rightarrow> int list" where
  "mat33_mat31_mult A b = map (\<lambda>row. row ! 0 * b ! 0 + row ! 1 * b ! 1 + row ! 2 * b ! 2) A"

definition mat33_mat33_mult :: "int list list \<Rightarrow> int list list \<Rightarrow> int list list" where
  "mat33_mat33_mult A B =
     map (\<lambda>row. map (\<lambda>j. row ! 0 * B ! 0 ! j + row ! 1 * B ! 1 ! j + row ! 2 * B ! 2 ! j) [0, 1, 2]) A"

definition mat31_mod :: "int list \<Rightarrow> int \<Rightarrow> int list" where
  "mat31_mod b m = map (\<lambda>x. x mod m) b"

definition mat33_mod :: "int list list \<Rightarrow> int \<Rightarrow> int list list" where
  "mat33_mod A m = map (\<lambda>row. mat31_mod row m) A"

definition mat33_mat33_mod :: "int list list \<Rightarrow> int list list \<Rightarrow> int \<Rightarrow> int list list" where
  "mat33_mat33_mod A B m = mat33_mod (mat33_mat33_mult A B) m"

definition mat33_identity :: "int list list" where
  "mat33_identity = [[1, 0, 0], [0, 1, 0], [0, 0, 1]]"

text \<open>
  Repeated squaring: the exponent is halved at every round, the base is squared, and the
  base is multiplied into the result at every odd exponent.
\<close>

function mat33_power_mod :: "int list list \<Rightarrow> nat \<Rightarrow> int \<Rightarrow> int list list" where
  "mat33_power_mod A j m =
     (if j = 0 then mat33_mod mat33_identity m
      else if odd j then mat33_mat33_mod A (mat33_power_mod (mat33_mat33_mod A A m) (j div 2) m) m
      else mat33_power_mod (mat33_mat33_mod A A m) (j div 2) m)"
  by pat_completeness auto
termination
  by (relation "measure (\<lambda>(A, j, m). j)") auto

declare mat33_power_mod.simps [simp del]

section \<open>The core step\<close>

text \<open>
  \<^verbatim>\<open>mrg32k3a(state)\<close>: reading \<^verbatim>\<open>state[0]\<close> to \<^verbatim>\<open>state[5]\<close> raises IndexError on a
  state of fewer than six components. \<^verbatim>\<open>int(p1)\<close> on the integer \<open>p1\<close> is \<open>p1\<close>.
\<close>

definition mrg32k3a :: "int list \<Rightarrow> py_error + (int list \<times> real)" where
  "mrg32k3a state =
     (if length state < 6 then Inl IndexError
      else
        let p1 = mrga12 * state ! 1 - mrga13n * state ! 0;
            k1 = py_int (py_truediv p1 mrgm1);
            p1 = p1 - k1 * mrgm1;
            p1 = (if p1 < 0 then p1 + mrgm1 else p1);
            p2 = mrga21 * state ! 5 - mrga23n * state ! 3;
            k2 = py_int (py_truediv p2 mrgm2);
            p2 = p2 - k2 * mrgm2;
            p2 = (if p2 < 0 then p2 + mrgm2 else p2);
            u = (if p1 \<le> p2 then real_of_int (p1 - p2 + mrgm1) * mrgnorm
                 else real_of_int (p1 - p2) * mrgnorm);
            new_state = [state ! 1, state ! 2, p1, state ! 4, state ! 5, p2]
        in Inr (new_state, u))"

section \<open>The generator object\<close>

text \<open>
  The attributes of an \<^verbatim>\<open>MRG32k3a\<close> object. \<open>current_state\<close> is the attribute
  \<^verbatim>\<open>_current_state\<close>. The state of the base class \<^verbatim>\<open>random.Random\<close> (which
  \<^verbatim>\<open>super().seed\<close> and \<^verbatim>\<open>super().setstate\<close> write) is never read by the generator
  and is left out, as are the constant attributes \<^verbatim>\<open>version\<close> and \<^verbatim>\<open>generate\<close>
  (always \<open>mrg32k3a\<close>).
\<close>

record rng =
  ref_seed :: "int list"
  current_state :: "int list"
  s_ss_sss_index :: "int list"
  stream_start :: "int list"
  substream_start :: "int list"
  subsubstream_start :: "int list"

definition seed :: "rng \<Rightarrow> int list \<Rightarrow> py_error + rng" where
  "seed r new_state =
     (if length new_state \<noteq> 6 then Inl AssertionError
      else Inr (r\<lparr>current_state := new_state\<rparr>))"

definition random :: "rng \<Rightarrow> py_error + (real \<times> rng)" where
  "random r =
     (let state = current_state r in
      case mrg32k3a state of
        Inl e \<Rightarrow> Inl e
      | Inr (new_state, u) \<Rightarrow>
          (case seed r new_state of Inl e \<Rightarrow> Inl e | Inr r' \<Rightarrow> Inr (u, r')))"

definition get_current_state :: "rng \<Rightarrow> int list" where
  "get_current_state r = current_state r"


definition advance_stream :: "rng \<Rightarrow> py_error + rng" where
  "advance_stream r =
     (let state = stream_start r;
          st1 = py_slice state 0 3;
          st2 = py_slice state 3 6;
          nst1m = mat33_mat31_mult A1p141 st1;
          nst2m = mat33_mat31_mult A2p141 st2;
          nst1 = mat31_mod nst1m mrgm1;
          nst2 = mat31_mod nst2m mrgm2;
          nstate = nst1 @ nst2
      in case seed r nstate of
           Inl e \<Rightarrow> Inl e
         | Inr r1 \<Rightarrow>
             (case py_index (s_ss_sss_index r1) 0 of
                Inl e \<Rightarrow> Inl e
              | Inr i0 \<Rightarrow>
                  (case py_setitem (s_ss_sss_index r1) 0 (i0 + 1) of
                     Inl e \<Rightarrow> Inl e
                   | Inr idx \<Rightarrow>
                       Inr (r1\<lparr>s_ss_sss_index := idx, stream_start := nstate,
                               substream_start := nstate, subsubstream_start := nstate\<rparr>))))"

definition advance_substream :: "rng \<Rightarrow> py_error + rng" where
  "advance_substream r =
     (let state = substream_start r;
          st1 = py_slice state 0 3;
          st2 = py_slice state 3 6;
          nst1m = mat33_mat31_mult A1p94 st1;
          nst2m = mat33_mat31_mult A2p94 st2;
          nst1 = mat31_mod nst1m mrgm1;
          nst2 = mat31_mod nst2m mrgm2;
          nstate = nst1 @ nst2
      in case seed r nstate of
           Inl e \<Rightarrow> Inl e
         | Inr r1 \<Rightarrow>
             (case py_index (s_ss_sss_index r1) 1 of
                Inl e \<Rightarrow> Inl e
              | Inr i1 \<Rightarrow>
                  (case py_setitem (s_ss_sss_index r1) 1 (i1 + 1) of
                     Inl e \<Rightarrow> Inl e
                   | Inr idx \<Rightarrow>
                       Inr (r1\<lparr>s_ss_sss_index := idx, substream_start := nstate,
                               subsubstream_start := nstate\<rparr>))))"

definition advance_subsubstream :: "rng \<Rightarrow> py_error + rng" where
  "advance_subsubstream r =
     (let state = subsubstream_start r;
          st1 = py_slice state 0 3;
          st2 = py_slice state 3 6;
          nst1m = mat33_mat31_mult A1p47 st1;
          nst2m = mat33_mat31_mult A2p47 st2;
          nst1 = mat31_mod nst1m mrgm1;
          nst2 = mat31_mod nst2m mrgm2;
          nstate = nst1 @ nst2
      in case seed r nstate of
           Inl e \<Rightarrow> Inl e
         | Inr r1 \<Rightarrow>
             (case py_index (s_ss_sss_index r1) 2 of
                Inl e \<Rightarrow> Inl e
              | Inr i2 \<Rightarrow>
                  (case py_setitem (s_ss_sss_index r1) 2 (i2 + 1) of
                     Inl e \<Rightarrow> Inl e
                   | Inr idx \<Rightarrow>
                       Inr (r1\<lparr>s_ss_sss_index := idx, subsubstream_start := nstate\<rparr>))))"

definition reset_stream :: "rng \<Rightarrow> py_error + rng" where
  "reset_stream r =
     (let nstate = stream_start r in
      case seed r nstate of
        Inl e \<Rightarrow> Inl e
      | Inr r1 \<Rightarrow>
          (let r2 = r1\<lparr>substream_start := nstate, subsubstream_start := nstate\<rparr> in
           case py_setitem (s_ss_sss_index r2) 1 0 of
             Inl e \<Rightarrow> Inl e
           | Inr idx1 \<Rightarrow>
               (case py_setitem idx1 2 0 of
                  Inl e \<Rightarrow> Inl e
                | Inr idx2 \<Rightarrow> Inr (r2\<lparr>s_ss_sss_index := idx2\<rparr>))))"

definition reset_substream :: "rng \<Rightarrow> py_error + rng" where
  "reset_substream r =
     (let nstate = substream_start r in
      case seed r nstate of
        Inl e \<Rightarrow> Inl e
      | Inr r1 \<Rightarrow>
          (let r2 = r1\<lparr>subsubstream_start := nstate\<rparr> in
           case py_setitem (s_ss_sss_index r2) 2 0 of
             Inl e \<Rightarrow> Inl e
           | Inr idx \<Rightarrow> Inr (r2\<lparr>s_ss_sss_index := idx\<rparr>)))"

definition reset_subsubstream :: "rng \<Rightarrow> py_error + rng" where
  "reset_subsubstream r = (let nstate = subsubstream_start r in seed r nstate)"

text \<open>
  One loop of \<^verbatim>\<open>start_fixed_s_ss_sss\<close>: \<^verbatim>\<open>for _ in range(n)\<close> applies the pair of jump
  matrices to the two halves of the running state, \<open>n\<close> times.
\<close>

fun jump_loop :: "nat \<Rightarrow> int list list \<Rightarrow> int list list \<Rightarrow> int list \<times> int list \<Rightarrow> int list \<times> int list" where
  "jump_loop 0 A1 A2 (st1, st2) = (st1, st2)"
| "jump_loop (Suc n) A1 A2 (st1, st2) =
     (let nst1m = mat33_mat31_mult A1 st1;
          nst2m = mat33_mat31_mult A2 st2
      in jump_loop n A1 A2 (mat31_mod nst1m mrgm1, mat31_mod nst2m mrgm2))"

text \<open>
  \<^verbatim>\<open>range(k)\<close> is empty for a negative \<open>k\<close>, hence \<open>nat k\<close> rounds. The triplet is read
  one component before each loop, so a triplet of fewer than three components raises
  IndexError.
\<close>

definition start_fixed_s_ss_sss :: "rng \<Rightarrow> int list \<Rightarrow> py_error + rng" where
  "start_fixed_s_ss_sss r s_ss_sss_triplet =
     (let state = ref_seed r;
          st1 = py_slice state 0 3;
          st2 = py_slice state 3 6
      in case py_index s_ss_sss_triplet 0 of
           Inl e \<Rightarrow> Inl e
         | Inr t0 \<Rightarrow>
             (case jump_loop (nat t0) A1p141 A2p141 (st1, st2) of
                (st1, st2) \<Rightarrow>
                  (let r1 = r\<lparr>stream_start := st1 @ st2\<rparr> in
                   case py_index s_ss_sss_triplet 1 of
                     Inl e \<Rightarrow> Inl e
                   | Inr t1 \<Rightarrow>
                       (case jump_loop (nat t1) A1p94 A2p94 (st1, st2) of
                          (st1, st2) \<Rightarrow>
                            (let r2 = r1\<lparr>substream_start := st1 @ st2\<rparr> in
                             case py_index s_ss_sss_triplet 2 of
                               Inl e \<Rightarrow> Inl e
                             | Inr t2 \<Rightarrow>
                                 (case jump_loop (nat t2) A1p47 A2p47 (st1, st2) of
                                    (st1, st2) \<Rightarrow>
                                      (let r3 = r2\<lparr>subsubstream_start := st1 @ st2\<rparr>;
                                           nstate = st1 @ st2
                                       in case seed r3 nstate of
                                            Inl e \<Rightarrow> Inl e
                                          | Inr r4 \<Rightarrow>
                                              Inr (r4\<lparr>s_ss_sss_index := s_ss_sss_triplet\<rparr>))))))))"

text \<open>
  \<^verbatim>\<open>MRG32k3a.__init__(ref_seed)\<close>: the attributes not yet assigned are written \<open>[]\<close>
  (\<^verbatim>\<open>start_fixed_s_ss_sss\<close> reads only \<open>ref_seed\<close> and assigns all of them).
  \<^verbatim>\<open>super().__init__(ref_seed)\<close> calls the \<^verbatim>\<open>seed\<close> method of the object.
\<close>

definition default_ref_seed :: "int list" where
  "default_ref_seed = [12345, 12345, 12345, 12345, 12345, 12345]"

definition MRG32k3a_init :: "int list \<Rightarrow> py_error + rng" where
  "MRG32k3a_init seed0 =
     (if length seed0 \<noteq> 6 then Inl AssertionError
      else
        case start_fixed_s_ss_sss
               \<lparr>ref_seed = seed0, current_state = [], s_ss_sss_index = [],
                stream_start = [], substream_start = [], subsubstream_start = []\<rparr>
               [0, 0, 0] of
          Inl e \<Rightarrow> Inl e
        | Inr r \<Rightarrow> seed r seed0)"


section \<open>Notions used to state the properties\<close>

text \<open>
  One application of a pair of jump matrices to a six-component state, as the three
  \<^verbatim>\<open>advance_*\<close> functions and the loops of \<^verbatim>\<open>start_fixed_s_ss_sss\<close> compute it;
  a generator all of whose states have six components and whose index has at least
  three (what \<^verbatim>\<open>__init__\<close> establishes and every operation keeps); and an operation
  called \<open>n\<close> times in a row, an exception ending the sequence.
\<close>


definition jump_state :: "int list list \<Rightarrow> int list list \<Rightarrow> int list \<Rightarrow> int list" where
  "jump_state A1 A2 state =
     mat31_mod (mat33_mat31_mult A1 (py_slice state 0 3)) mrgm1 @
     mat31_mod (mat33_mat31_mult A2 (py_slice state 3 6)) mrgm2"

definition wf_rng :: "rng \<Rightarrow> bool" where
  "wf_rng r \<longleftrightarrow>
     length (ref_seed r) = 6 \<and> length (current_state r) = 6 \<and>
     length (stream_start r) = 6 \<and> length (substream_start r) = 6 \<and>
     length (subsubstream_start r) = 6 \<and> 3 \<le> length (s_ss_sss_index r)"

fun repeat_op :: "nat \<Rightarrow> (rng \<Rightarrow> py_error + rng) \<Rightarrow> py_error + rng \<Rightarrow> py_error + rng" where
  "repeat_op 0 f x = x"
| "repeat_op (Suc n) f x = repeat_op n f (case x of Inl e \<Rightarrow> Inl e | Inr r \<Rightarrow> f r)"

text \<open>Sequencing: the next call happens only if the previous one raised nothing.\<close>

definition then_op :: "py_error + rng \<Rightarrow> (rng \<Rightarrow> py_error + rng) \<Rightarrow> py_error + rng" where
  "then_op x f = (case x of Inl e \<Rightarrow> Inl e | Inr r \<Rightarrow> f r)"

text \<open>
  Two concrete generators: the one \<^verbatim>\<open>MRG32k3a()\<close> builds from the default seed, and
  the one \<^verbatim>\<open>start_fixed_s_ss_sss(rng, [1, 1, 1])\<close> then turns it into (lemmas
  \<open>init_default\<close> and \<open>start_fixed_sample\<close>).
\<close>

definition default_rng :: rng where
  "default_rng =
     \<lparr>ref_seed = default_ref_seed, current_state = default_ref_seed,
      s_ss_sss_index = [0, 0, 0], stream_start = default_ref_seed,
      substream_start = default_ref_seed, subsubstream_start = default_ref_seed\<rparr>"

definition sample_rng :: rng where
  "sample_rng =
     \<lparr>ref_seed = default_ref_seed,
      current_state = [4081912794, 3302152336, 272444806, 734201290, 307063300, 577233840],
      s_ss_sss_index = [1, 1, 1],
      stream_start = [3901495156, 347400185, 4270331717, 243394442, 4217318958, 3826978186],
      substream_start = [2422591764, 222998960, 2439246456, 3644497983, 1076191087, 3585308792],
      subsubstream_start = [4081912794, 3302152336, 272444806, 734201290, 307063300, 577233840]\<rparr>"

text \<open>
  A state within its modulus ranges (spec, section 3): six components, the first three in
  \<open>[0, m1)\<close> and the last three in \<open>[0, m2)\<close>; a generator all of whose states are;
  \<open>n\<close> consecutive calls of \<^verbatim>\<open>random()\<close>, collecting the draws; and a state of six
  components outside the ranges.
\<close>

definition valid_state :: "int list \<Rightarrow> bool" where
  "valid_state s \<longleftrightarrow>
     length s = 6 \<and> list_all (\<lambda>x. 0 \<le> x \<and> x < mrgm1) (take 3 s) \<and>
     list_all (\<lambda>x. 0 \<le> x \<and> x < mrgm2) (drop 3 s)"

definition valid_rng :: "rng \<Rightarrow> bool" where
  "valid_rng r \<longleftrightarrow>
     valid_state (ref_seed r) \<and> valid_state (current_state r) \<and>
     valid_state (stream_start r) \<and> valid_state (substream_start r) \<and>
     valid_state (subsubstream_start r) \<and> 3 \<le> length (s_ss_sss_index r)"

fun draws :: "nat \<Rightarrow> rng \<Rightarrow> py_error + (real list \<times> rng)" where
  "draws 0 r = Inr ([], r)"
| "draws (Suc n) r =
     (case random r of
        Inl e \<Rightarrow> Inl e
      | Inr (u, r') \<Rightarrow>
          (case draws n r' of Inl e \<Rightarrow> Inl e | Inr (us, r'') \<Rightarrow> Inr (u # us, r'')))"


text \<open>One squaring step of the exponentiation.\<close>

definition mat33_square_mod :: "int \<Rightarrow> int list list \<Rightarrow> int list list" where
  "mat33_square_mod m A = mat33_mat33_mod A A m"

text \<open>
  The plain power of a 3x3 matrix, \<open>n\<close> factors multiplied without any reduction,
  as the reference for "power modulo \<open>m\<close>"; and the shape of a 3x3 matrix.
\<close>

definition is_mat33 :: "int list list \<Rightarrow> bool" where
  "is_mat33 A \<longleftrightarrow> length A = 3 \<and> list_all (\<lambda>row. length row = 3) A"

fun mat33_power :: "int list list \<Rightarrow> nat \<Rightarrow> int list list" where
  "mat33_power A 0 = mat33_identity"
| "mat33_power A (Suc n) = mat33_mat33_mult A (mat33_power A n)"

section \<open>What each operation computes\<close>

lemma length_mat31_mod [simp]: "length (mat31_mod b m) = length b"
  by (simp add: mat31_mod_def)

lemma length_mat33_mat31_mult [simp]: "length (mat33_mat31_mult A b) = length A"
  by (simp add: mat33_mat31_mult_def)

lemma length_jump_matrices [simp]:
  "length A1p47 = 3" "length A2p47 = 3" "length A1p94 = 3" "length A2p94 = 3"
  "length A1p141 = 3" "length A2p141 = 3"
  by (simp_all add: A1p47_def A2p47_def A1p94_def A2p94_def A1p141_def A2p141_def)

lemma length_jump_state: "length A1 = 3 \<Longrightarrow> length A2 = 3 \<Longrightarrow> length (jump_state A1 A2 s) = 6"
  by (simp add: jump_state_def)

lemma seed_ok: "length s = 6 \<Longrightarrow> seed r s = Inr (r\<lparr>current_state := s\<rparr>)"
  by (simp add: seed_def)

lemma advance_stream_eq:
  assumes "3 \<le> length (s_ss_sss_index r)"
  shows "advance_stream r =
    Inr (r\<lparr>current_state := jump_state A1p141 A2p141 (stream_start r),
           s_ss_sss_index := (s_ss_sss_index r)[0 := s_ss_sss_index r ! 0 + 1],
           stream_start := jump_state A1p141 A2p141 (stream_start r),
           substream_start := jump_state A1p141 A2p141 (stream_start r),
           subsubstream_start := jump_state A1p141 A2p141 (stream_start r)\<rparr>)"
  using assms
  by (auto simp add: advance_stream_def Let_def seed_def py_index_def py_setitem_def jump_state_def)

lemma advance_substream_eq:
  assumes "3 \<le> length (s_ss_sss_index r)"
  shows "advance_substream r =
    Inr (r\<lparr>current_state := jump_state A1p94 A2p94 (substream_start r),
           s_ss_sss_index := (s_ss_sss_index r)[1 := s_ss_sss_index r ! 1 + 1],
           substream_start := jump_state A1p94 A2p94 (substream_start r),
           subsubstream_start := jump_state A1p94 A2p94 (substream_start r)\<rparr>)"
  using assms
  by (simp add: advance_substream_def Let_def seed_def py_index_def py_setitem_def jump_state_def)

lemma advance_subsubstream_eq:
  assumes "3 \<le> length (s_ss_sss_index r)"
  shows "advance_subsubstream r =
    Inr (r\<lparr>current_state := jump_state A1p47 A2p47 (subsubstream_start r),
           s_ss_sss_index := (s_ss_sss_index r)[2 := s_ss_sss_index r ! 2 + 1],
           subsubstream_start := jump_state A1p47 A2p47 (subsubstream_start r)\<rparr>)"
  using assms
  by (simp add: advance_subsubstream_def Let_def seed_def py_index_def py_setitem_def jump_state_def)

lemma reset_stream_eq:
  assumes "length (stream_start r) = 6" "3 \<le> length (s_ss_sss_index r)"
  shows "reset_stream r =
    Inr (r\<lparr>current_state := stream_start r,
           s_ss_sss_index := (s_ss_sss_index r)[1 := 0, 2 := 0],
           substream_start := stream_start r,
           subsubstream_start := stream_start r\<rparr>)"
  using assms
  by (simp add: reset_stream_def Let_def seed_def py_setitem_def)

lemma reset_substream_eq:
  assumes "length (substream_start r) = 6" "3 \<le> length (s_ss_sss_index r)"
  shows "reset_substream r =
    Inr (r\<lparr>current_state := substream_start r,
           s_ss_sss_index := (s_ss_sss_index r)[2 := 0],
           subsubstream_start := substream_start r\<rparr>)"
  using assms
  by (simp add: reset_substream_def Let_def seed_def py_setitem_def)

lemma reset_subsubstream_eq:
  assumes "length (subsubstream_start r) = 6"
  shows "reset_subsubstream r = Inr (r\<lparr>current_state := subsubstream_start r\<rparr>)"
  using assms
  by (simp add: reset_subsubstream_def Let_def seed_def)

lemma then_op_Inr [simp]: "then_op (Inr r) f = f r"
  by (simp add: then_op_def)

lemma then_op_Inl [simp]: "then_op (Inl e) f = Inl e"
  by (simp add: then_op_def)

lemma repeat_op_Inl [simp]: "repeat_op n f (Inl e) = Inl e"
  by (induction n) simp_all

subsection \<open>The loops of \<open>start_fixed_s_ss_sss\<close>\<close>

lemma jump_state_append:
  assumes "length st1 = 3" "length st2 = 3"
  shows "jump_state A1 A2 (st1 @ st2) =
           mat31_mod (mat33_mat31_mult A1 st1) mrgm1 @ mat31_mod (mat33_mat31_mult A2 st2) mrgm2"
  using assms by (simp add: jump_state_def py_slice_def)

lemma jump_loop_funpow:
  assumes "length A1 = 3" "length A2 = 3" "length st1 = 3" "length st2 = 3"
  shows "jump_loop n A1 A2 (st1, st2) =
           (take 3 ((jump_state A1 A2 ^^ n) (st1 @ st2)), drop 3 ((jump_state A1 A2 ^^ n) (st1 @ st2)))"
  using assms(3,4)
proof (induction n arbitrary: st1 st2)
  case 0
  then show ?case by simp
next
  case (Suc n)
  let ?n1 = "mat31_mod (mat33_mat31_mult A1 st1) mrgm1"
  let ?n2 = "mat31_mod (mat33_mat31_mult A2 st2) mrgm2"
  have len: "length ?n1 = 3" "length ?n2 = 3"
    using assms(1,2) by simp_all
  have "jump_loop (Suc n) A1 A2 (st1, st2) = jump_loop n A1 A2 (?n1, ?n2)"
    by (simp add: Let_def)
  also have "\<dots> = (take 3 ((jump_state A1 A2 ^^ n) (?n1 @ ?n2)), drop 3 ((jump_state A1 A2 ^^ n) (?n1 @ ?n2)))"
    using len by (rule Suc.IH)
  also have "?n1 @ ?n2 = jump_state A1 A2 (st1 @ st2)"
    using Suc.prems by (simp add: jump_state_append)
  finally show ?case by (simp add: funpow_swap1)
qed

lemma length_funpow_jump_state:
  assumes "length A1 = 3" "length A2 = 3" "length s = 6"
  shows "length ((jump_state A1 A2 ^^ n) s) = 6"
  using assms by (induction n) (simp_all add: length_jump_state)

lemma jump_loop_append:
  assumes "length A1 = 3" "length A2 = 3" "length s = 6"
  shows "jump_loop n A1 A2 (py_slice s 0 3, py_slice s 3 6) =
           (take 3 ((jump_state A1 A2 ^^ n) s), drop 3 ((jump_state A1 A2 ^^ n) s))"
proof -
  have "jump_loop n A1 A2 (take 3 s, drop 3 s) =
      (take 3 ((jump_state A1 A2 ^^ n) (take 3 s @ drop 3 s)), drop 3 ((jump_state A1 A2 ^^ n) (take 3 s @ drop 3 s)))"
    using assms by (intro jump_loop_funpow) simp_all
  moreover have "py_slice s 0 3 = take 3 s" "py_slice s 3 6 = drop 3 s"
    using assms(3) by (simp_all add: py_slice_def)
  ultimately show ?thesis by simp
qed

lemma start_fixed_s_ss_sss_eq:
  assumes "length (ref_seed r) = 6" "3 \<le> length t"
  shows "start_fixed_s_ss_sss r t =
     Inr (r\<lparr>current_state :=
              (jump_state A1p47 A2p47 ^^ nat (t ! 2)) ((jump_state A1p94 A2p94 ^^ nat (t ! 1))
                ((jump_state A1p141 A2p141 ^^ nat (t ! 0)) (ref_seed r))),
            s_ss_sss_index := t,
            stream_start := (jump_state A1p141 A2p141 ^^ nat (t ! 0)) (ref_seed r),
            substream_start := (jump_state A1p94 A2p94 ^^ nat (t ! 1))
                ((jump_state A1p141 A2p141 ^^ nat (t ! 0)) (ref_seed r)),
            subsubstream_start :=
              (jump_state A1p47 A2p47 ^^ nat (t ! 2)) ((jump_state A1p94 A2p94 ^^ nat (t ! 1))
                ((jump_state A1p141 A2p141 ^^ nat (t ! 0)) (ref_seed r)))\<rparr>)"
proof -
  let ?s1 = "(jump_state A1p141 A2p141 ^^ nat (t ! 0)) (ref_seed r)"
  let ?s2 = "(jump_state A1p94 A2p94 ^^ nat (t ! 1)) ?s1"
  let ?s3 = "(jump_state A1p47 A2p47 ^^ nat (t ! 2)) ?s2"
  have l1: "length ?s1 = 6" using assms(1) by (simp add: length_funpow_jump_state)
  have l2: "length ?s2 = 6" using l1 by (simp add: length_funpow_jump_state)
  have l3: "length ?s3 = 6" using l2 by (simp add: length_funpow_jump_state)
  have j1: "jump_loop (nat (t ! 0)) A1p141 A2p141 (py_slice (ref_seed r) 0 3, py_slice (ref_seed r) 3 6)
              = (take 3 ?s1, drop 3 ?s1)"
    using assms(1) by (simp add: jump_loop_append)
  have j2: "jump_loop (nat (t ! 1)) A1p94 A2p94 (take 3 ?s1, drop 3 ?s1) = (take 3 ?s2, drop 3 ?s2)"
    using jump_loop_append [of A1p94 A2p94 ?s1 "nat (t ! 1)"] l1 by (simp add: py_slice_def)
  have j3: "jump_loop (nat (t ! 2)) A1p47 A2p47 (take 3 ?s2, drop 3 ?s2) = (take 3 ?s3, drop 3 ?s3)"
    using jump_loop_append [of A1p47 A2p47 ?s2 "nat (t ! 2)"] l2 by (simp add: py_slice_def)
  show ?thesis
    using assms(2) l3 j1 j2 j3
    by (auto simp add: start_fixed_s_ss_sss_def py_index_def Let_def seed_def)
qed

subsection \<open>Concrete generators\<close>

lemma wf_default_rng: "wf_rng default_rng"
  by (simp add: wf_rng_def default_rng_def default_ref_seed_def)

lemma wf_sample_rng: "wf_rng sample_rng"
  by (simp add: wf_rng_def sample_rng_def default_ref_seed_def)

lemma init_default: "MRG32k3a_init default_ref_seed = Inr default_rng"
  by (simp add: MRG32k3a_init_def start_fixed_s_ss_sss_def py_index_def py_slice_def seed_def
      default_rng_def default_ref_seed_def Let_def)

lemma jump_state_eval:
  "jump_state A1p94 A2p94 default_ref_seed =
     [2846945485, 910185678, 1444894002, 3922816327, 4066457861, 463820379]"
  "jump_state A1p94 A2p94 [2846945485, 910185678, 1444894002, 3922816327, 4066457861, 463820379] =
     [931846445, 1181187283, 667235758, 2587291224, 3242677801, 1785001123]"
  "jump_state A1p141 A2p141 default_ref_seed =
     [3901495156, 347400185, 4270331717, 243394442, 4217318958, 3826978186]"
  "jump_state A1p94 A2p94 [3901495156, 347400185, 4270331717, 243394442, 4217318958, 3826978186] =
     [2422591764, 222998960, 2439246456, 3644497983, 1076191087, 3585308792]"
  "jump_state A1p47 A2p47 [2422591764, 222998960, 2439246456, 3644497983, 1076191087, 3585308792] =
     [4081912794, 3302152336, 272444806, 734201290, 307063300, 577233840]"
  by (simp_all add: jump_state_def py_slice_def mat31_mod_def mat33_mat31_mult_def
      default_ref_seed_def A1p47_def A2p47_def A1p94_def A2p94_def A1p141_def A2p141_def
      mrgm1_def mrgm2_def)

lemma start_fixed_sample: "start_fixed_s_ss_sss default_rng [1, 1, 1] = Inr sample_rng"
proof -
  have "length (ref_seed default_rng) = 6"
    by (simp add: default_rng_def default_ref_seed_def)
  then show ?thesis
    by (simp add: start_fixed_s_ss_sss_eq)
      (simp add: default_rng_def sample_rng_def jump_state_eval)
qed

subsection \<open>An advance called several times\<close>

lemma repeat_advance_stream:
  assumes "3 \<le> length (s_ss_sss_index r)"
  shows "\<exists>r'. repeat_op n advance_stream (Inr r) = Inr r' \<and>
           ref_seed r' = ref_seed r \<and>
           stream_start r' = (jump_state A1p141 A2p141 ^^ n) (stream_start r) \<and>
           (0 < n \<longrightarrow> substream_start r' = stream_start r' \<and>
                      subsubstream_start r' = stream_start r' \<and> current_state r' = stream_start r') \<and>
           (n = 0 \<longrightarrow> r' = r) \<and>
           length (s_ss_sss_index r') = length (s_ss_sss_index r)"
  using assms
proof (induction n arbitrary: r)
  case 0
  then show ?case by simp
next
  case (Suc n)
  define r1 where "r1 = r\<lparr>current_state := jump_state A1p141 A2p141 (stream_start r),
           s_ss_sss_index := (s_ss_sss_index r)[0 := s_ss_sss_index r ! 0 + 1],
           stream_start := jump_state A1p141 A2p141 (stream_start r),
           substream_start := jump_state A1p141 A2p141 (stream_start r),
           subsubstream_start := jump_state A1p141 A2p141 (stream_start r)\<rparr>"
  have step: "advance_stream r = Inr r1"
    unfolding r1_def using Suc.prems by (rule advance_stream_eq)
  have "3 \<le> length (s_ss_sss_index r1)" using Suc.prems by (simp add: r1_def)
  from Suc.IH [OF this] obtain r' where
    r': "repeat_op n advance_stream (Inr r1) = Inr r'"
      "ref_seed r' = ref_seed r1"
      "stream_start r' = (jump_state A1p141 A2p141 ^^ n) (stream_start r1)"
      "0 < n \<longrightarrow> substream_start r' = stream_start r' \<and>
                      subsubstream_start r' = stream_start r' \<and> current_state r' = stream_start r'"
      "n = 0 \<longrightarrow> r' = r1"
      "length (s_ss_sss_index r') = length (s_ss_sss_index r1)"
    by blast
  have "repeat_op (Suc n) advance_stream (Inr r) = Inr r'"
    using step r'(1) by simp
  moreover have "stream_start r' = (jump_state A1p141 A2p141 ^^ Suc n) (stream_start r)"
    using r'(3) by (simp add: funpow_swap1 r1_def)
  moreover have "substream_start r' = stream_start r' \<and>
                      subsubstream_start r' = stream_start r' \<and> current_state r' = stream_start r'"
    using r'(4,5) by (cases "n = 0") (auto simp add: r1_def)
  ultimately show ?case using r'(2,6) by (simp add: r1_def)
qed

lemma repeat_advance_substream:
  assumes "3 \<le> length (s_ss_sss_index r)"
  shows "\<exists>r'. repeat_op n advance_substream (Inr r) = Inr r' \<and>
           ref_seed r' = ref_seed r \<and> stream_start r' = stream_start r \<and>
           substream_start r' = (jump_state A1p94 A2p94 ^^ n) (substream_start r) \<and>
           (0 < n \<longrightarrow> subsubstream_start r' = substream_start r' \<and> current_state r' = substream_start r') \<and>
           (n = 0 \<longrightarrow> r' = r) \<and>
           length (s_ss_sss_index r') = length (s_ss_sss_index r)"
  using assms
proof (induction n arbitrary: r)
  case 0
  then show ?case by simp
next
  case (Suc n)
  define r1 where "r1 = r\<lparr>current_state := jump_state A1p94 A2p94 (substream_start r),
           s_ss_sss_index := (s_ss_sss_index r)[1 := s_ss_sss_index r ! 1 + 1],
           substream_start := jump_state A1p94 A2p94 (substream_start r),
           subsubstream_start := jump_state A1p94 A2p94 (substream_start r)\<rparr>"
  have step: "advance_substream r = Inr r1"
    unfolding r1_def using Suc.prems by (rule advance_substream_eq)
  have "3 \<le> length (s_ss_sss_index r1)" using Suc.prems by (simp add: r1_def)
  from Suc.IH [OF this] obtain r' where
    r': "repeat_op n advance_substream (Inr r1) = Inr r'"
      "ref_seed r' = ref_seed r1" "stream_start r' = stream_start r1"
      "substream_start r' = (jump_state A1p94 A2p94 ^^ n) (substream_start r1)"
      "0 < n \<longrightarrow> subsubstream_start r' = substream_start r' \<and> current_state r' = substream_start r'"
      "n = 0 \<longrightarrow> r' = r1"
      "length (s_ss_sss_index r') = length (s_ss_sss_index r1)"
    by blast
  have "repeat_op (Suc n) advance_substream (Inr r) = Inr r'"
    using step r'(1) by simp
  moreover have "substream_start r' = (jump_state A1p94 A2p94 ^^ Suc n) (substream_start r)"
    using r'(4) by (simp add: funpow_swap1 r1_def)
  moreover have "subsubstream_start r' = substream_start r' \<and> current_state r' = substream_start r'"
    using r'(5,6) by (cases "n = 0") (auto simp add: r1_def)
  ultimately show ?case using r'(2,3,7) by (simp add: r1_def)
qed

lemma repeat_advance_subsubstream:
  assumes "3 \<le> length (s_ss_sss_index r)"
  shows "\<exists>r'. repeat_op n advance_subsubstream (Inr r) = Inr r' \<and>
           ref_seed r' = ref_seed r \<and> stream_start r' = stream_start r \<and>
           substream_start r' = substream_start r \<and>
           subsubstream_start r' = (jump_state A1p47 A2p47 ^^ n) (subsubstream_start r) \<and>
           (0 < n \<longrightarrow> current_state r' = subsubstream_start r') \<and>
           (n = 0 \<longrightarrow> r' = r) \<and>
           length (s_ss_sss_index r') = length (s_ss_sss_index r)"
  using assms
proof (induction n arbitrary: r)
  case 0
  then show ?case by simp
next
  case (Suc n)
  define r1 where "r1 = r\<lparr>current_state := jump_state A1p47 A2p47 (subsubstream_start r),
           s_ss_sss_index := (s_ss_sss_index r)[2 := s_ss_sss_index r ! 2 + 1],
           subsubstream_start := jump_state A1p47 A2p47 (subsubstream_start r)\<rparr>"
  have step: "advance_subsubstream r = Inr r1"
    unfolding r1_def using Suc.prems by (rule advance_subsubstream_eq)
  have "3 \<le> length (s_ss_sss_index r1)" using Suc.prems by (simp add: r1_def)
  from Suc.IH [OF this] obtain r' where
    r': "repeat_op n advance_subsubstream (Inr r1) = Inr r'"
      "ref_seed r' = ref_seed r1" "stream_start r' = stream_start r1"
      "substream_start r' = substream_start r1"
      "subsubstream_start r' = (jump_state A1p47 A2p47 ^^ n) (subsubstream_start r1)"
      "0 < n \<longrightarrow> current_state r' = subsubstream_start r'"
      "n = 0 \<longrightarrow> r' = r1"
      "length (s_ss_sss_index r') = length (s_ss_sss_index r1)"
    by blast
  have "repeat_op (Suc n) advance_subsubstream (Inr r) = Inr r'"
    using step r'(1) by simp
  moreover have "subsubstream_start r' = (jump_state A1p47 A2p47 ^^ Suc n) (subsubstream_start r)"
    using r'(5) by (simp add: funpow_swap1 r1_def)
  moreover have "current_state r' = subsubstream_start r'"
    using r'(6,7) by (cases "n = 0") (auto simp add: r1_def)
  ultimately show ?case using r'(2,3,4,8) by (simp add: r1_def)
qed

section \<open>What the core step computes\<close>

text \<open>
  The quotient \<^verbatim>\<open>int(p / m)\<close> is the one rounded toward zero, and subtracting
  \<open>k * m\<close> and adding \<open>m\<close> to a negative difference leaves the residue \<open>p mod m\<close>.
\<close>

lemma py_int_truediv:
  assumes "0 < m"
  shows "py_int (py_truediv p m) = (if p < 0 then - ((- p) div m) else p div m)"
proof (cases "p < 0")
  case True
  have "real_of_int p / real_of_int m < 0 \<or> real_of_int p / real_of_int m = 0"
    using True assms by (simp add: divide_less_0_iff)
  have neg: "real_of_int p / real_of_int m < 0"
    using True assms by (simp add: divide_less_0_iff)
  have "\<lceil>real_of_int p / real_of_int m\<rceil> = - \<lfloor>real_of_int (- p) / real_of_int m\<rfloor>"
    by (simp add: ceiling_def)
  also have "\<dots> = - ((- p) div m)"
    by (simp only: floor_divide_of_int_eq)
  finally show ?thesis using True neg by (simp add: py_int_def py_truediv_def)
next
  case False
  have nonneg: "\<not> real_of_int p / real_of_int m < 0"
    using False assms by (simp add: divide_less_0_iff)
  show ?thesis using False nonneg
    by (simp add: py_int_def py_truediv_def floor_divide_of_int_eq)
qed

lemma trunc_reduce:
  assumes "0 < m"
  shows "(let k = py_int (py_truediv p m); q = p - k * m in if q < 0 then q + m else q) = p mod m"
proof (cases "p < 0")
  case False
  have k: "py_int (py_truediv p m) = p div m"
    using False assms by (simp add: py_int_truediv)
  have e: "p - p div m * m = p mod m" by (simp add: minus_div_mult_eq_mod)
  have "\<not> p mod m < 0" using assms by (simp add: not_less)
  then show ?thesis unfolding Let_def k e by simp
next
  case True
  have k: "py_int (py_truediv p m) = - ((- p) div m)"
    using True assms by (simp add: py_int_truediv)
  have e: "p - (- ((- p) div m)) * m = - ((- p) mod m)"
    using minus_div_mult_eq_mod [of "- p" m] by simp
  show ?thesis
  proof (cases "p mod m = 0")
    case z: True
    then have "(- p) mod m = 0" by (simp add: zmod_zminus1_eq_if)
    then show ?thesis unfolding Let_def k e using z by simp
  next
    case nz: False
    then have r: "(- p) mod m = m - p mod m" by (simp add: zmod_zminus1_eq_if)
    have "0 \<le> p mod m" using assms by simp
    then have pos: "0 < p mod m" using nz by linarith
    have lt: "p mod m < m" using assms by simp
    show ?thesis unfolding Let_def k e r using pos lt by simp
  qed
qed

lemma mrg32k3a_eq:
  assumes "6 \<le> length state"
  shows "mrg32k3a state =
     Inr ([state ! 1, state ! 2, (mrga12 * state ! 1 - mrga13n * state ! 0) mod mrgm1,
           state ! 4, state ! 5, (mrga21 * state ! 5 - mrga23n * state ! 3) mod mrgm2],
          (if (mrga12 * state ! 1 - mrga13n * state ! 0) mod mrgm1
                \<le> (mrga21 * state ! 5 - mrga23n * state ! 3) mod mrgm2
           then real_of_int ((mrga12 * state ! 1 - mrga13n * state ! 0) mod mrgm1
                  - (mrga21 * state ! 5 - mrga23n * state ! 3) mod mrgm2 + mrgm1) * mrgnorm
           else real_of_int ((mrga12 * state ! 1 - mrga13n * state ! 0) mod mrgm1
                  - (mrga21 * state ! 5 - mrga23n * state ! 3) mod mrgm2) * mrgnorm))"
proof -
  have m: "0 < mrgm1" "0 < mrgm2" by (simp_all add: mrgm1_def mrgm2_def)
  have t1: "\<And>p. (if p - py_int (py_truediv p mrgm1) * mrgm1 < 0
              then p - py_int (py_truediv p mrgm1) * mrgm1 + mrgm1
              else p - py_int (py_truediv p mrgm1) * mrgm1) = p mod mrgm1"
    using trunc_reduce [OF m(1)] by (simp add: Let_def)
  have t2: "\<And>p. (if p - py_int (py_truediv p mrgm2) * mrgm2 < 0
              then p - py_int (py_truediv p mrgm2) * mrgm2 + mrgm2
              else p - py_int (py_truediv p mrgm2) * mrgm2) = p mod mrgm2"
    using trunc_reduce [OF m(2)] by (simp add: Let_def)
  show ?thesis
    using assms unfolding mrg32k3a_def Let_def t1 t2 by simp
qed

lemma length_6_conv:
  "length s = 6 \<longleftrightarrow> (\<exists>x1 x2 x3 y1 y2 y3. s = [x1, x2, x3, y1, y2, y3])"
  by (auto simp add: eval_nat_numeral length_Suc_conv)

lemma valid_state_conv:
  "valid_state s \<longleftrightarrow>
     (\<exists>x1 x2 x3 y1 y2 y3. s = [x1, x2, x3, y1, y2, y3] \<and>
        0 \<le> x1 \<and> x1 < mrgm1 \<and> 0 \<le> x2 \<and> x2 < mrgm1 \<and> 0 \<le> x3 \<and> x3 < mrgm1 \<and>
        0 \<le> y1 \<and> y1 < mrgm2 \<and> 0 \<le> y2 \<and> y2 < mrgm2 \<and> 0 \<le> y3 \<and> y3 < mrgm2)"
  unfolding valid_state_def length_6_conv by auto

lemma valid_state_length: "valid_state s \<Longrightarrow> length s = 6"
  by (simp add: valid_state_def)

lemma valid_jump_state:
  assumes "length A1 = 3" "length A2 = 3"
  shows "valid_state (jump_state A1 A2 s)"
proof -
  have m: "0 < mrgm1" "0 < mrgm2" by (simp_all add: mrgm1_def mrgm2_def)
  have "list_all (\<lambda>x. 0 \<le> x \<and> x < mrgm1) (mat31_mod b mrgm1)" for b
    using m by (simp add: mat31_mod_def list_all_iff)
  moreover have "list_all (\<lambda>x. 0 \<le> x \<and> x < mrgm2) (mat31_mod b mrgm2)" for b
    using m by (simp add: mat31_mod_def list_all_iff)
  ultimately show ?thesis
    using assms by (simp add: valid_state_def jump_state_def)
qed

lemma valid_funpow_jump_state:
  assumes "length A1 = 3" "length A2 = 3" "valid_state s"
  shows "valid_state ((jump_state A1 A2 ^^ n) s)"
  using assms by (cases n) (simp_all add: valid_jump_state)

lemma mrg32k3a_valid:
  assumes "valid_state s"
  shows "\<exists>s' u. mrg32k3a s = Inr (s', u) \<and> valid_state s' \<and> 0 < u \<and> u < 1"
proof -
  have m: "0 < mrgm1" "0 < mrgm2" by (simp_all add: mrgm1_def mrgm2_def)
  from assms obtain x1 x2 x3 y1 y2 y3 where
    s: "s = [x1, x2, x3, y1, y2, y3]" and
    b: "0 \<le> x2" "x2 < mrgm1" "0 \<le> x3" "x3 < mrgm1" "0 \<le> y2" "y2 < mrgm2" "0 \<le> y3" "y3 < mrgm2"
    unfolding valid_state_conv by blast
  define p1 where "p1 = (mrga12 * x2 - mrga13n * x1) mod mrgm1"
  define p2 where "p2 = (mrga21 * y3 - mrga23n * y1) mod mrgm2"
  define z where "z = (if p1 \<le> p2 then p1 - p2 + mrgm1 else p1 - p2)"
  have r1: "0 \<le> p1" "p1 < mrgm1" using m by (simp_all add: p1_def)
  have r2: "0 \<le> p2" "p2 < mrgm2" using m by (simp_all add: p2_def)
  have step: "mrg32k3a s = Inr ([x2, x3, p1, y2, y3, p2], real_of_int z * mrgnorm)"
    by (simp add: s mrg32k3a_eq p1_def p2_def z_def)
  have v: "valid_state [x2, x3, p1, y2, y3, p2]"
    unfolding valid_state_conv using b r1 r2 by simp
  have z: "1 \<le> z" "z \<le> mrgm1"
    using r1 r2 by (auto simp add: z_def mrgm1_def mrgm2_def)
  have "0 < real_of_int z" using z(1) by simp
  then have pos: "0 < real_of_int z * mrgnorm" by (simp add: mrgnorm_def)
  have "real_of_int z \<le> real_of_int mrgm1" using z(2) by simp
  then have "real_of_int z * mrgnorm \<le> real_of_int mrgm1 * mrgnorm"
    by (simp add: mrgnorm_def)
  also have "\<dots> < 1" by (simp add: mrgm1_def mrgnorm_def)
  finally have lt: "real_of_int z * mrgnorm < 1" .
  show ?thesis using step v pos lt by blast
qed

lemma random_valid:
  assumes "valid_state (current_state r)"
  shows "\<exists>u s'. random r = Inr (u, r\<lparr>current_state := s'\<rparr>) \<and> valid_state s' \<and> 0 < u \<and> u < 1"
proof -
  from mrg32k3a_valid [OF assms] obtain s' u where
    m: "mrg32k3a (current_state r) = Inr (s', u)" "valid_state s'" "0 < u" "u < 1"
    by blast
  have "random r = Inr (u, r\<lparr>current_state := s'\<rparr>)"
    using m(1) valid_state_length [OF m(2)] by (simp add: random_def seed_def)
  then show ?thesis using m(2,3,4) by blast
qed

lemma draws_valid:
  assumes "valid_state (current_state r)"
  shows "\<exists>us r'. draws n r = Inr (us, r') \<and> length us = n \<and> (\<forall>u \<in> set us. 0 < u \<and> u < 1) \<and>
           valid_state (current_state r')"
  using assms
proof (induction n arbitrary: r)
  case 0
  then show ?case by simp
next
  case (Suc n)
  from random_valid [OF Suc.prems] obtain u s' where
    d: "random r = Inr (u, r\<lparr>current_state := s'\<rparr>)" "valid_state s'" "0 < u" "u < 1"
    by blast
  have "valid_state (current_state (r\<lparr>current_state := s'\<rparr>))" using d(2) by simp
  from Suc.IH [OF this] obtain us r' where
    ih: "draws n (r\<lparr>current_state := s'\<rparr>) = Inr (us, r')" "length us = n"
      "\<forall>u \<in> set us. 0 < u \<and> u < 1" "valid_state (current_state r')"
    by blast
  have "draws (Suc n) r = Inr (u # us, r')" using d(1) ih(1) by simp
  then show ?case using ih(2,3,4) d(3,4) by simp
qed

lemma valid_default_ref_seed: "valid_state default_ref_seed"
  by (simp add: valid_state_def default_ref_seed_def mrgm1_def mrgm2_def)

lemma valid_rng_wf: "valid_rng r \<Longrightarrow> wf_rng r"
  by (simp add: valid_rng_def wf_rng_def valid_state_def)

lemma valid_sample_rng: "valid_rng sample_rng"
  by (simp add: valid_rng_def valid_state_def sample_rng_def default_ref_seed_def
      mrgm1_def mrgm2_def)

subsection \<open>Rounding\<close>

text \<open>
  The source computes the quotient \<^verbatim>\<open>p / m\<close> and the product with \<^verbatim>\<open>mrgnorm\<close> in
  binary64 floats. For a state within its ranges \<open>\<bar>p / m\<bar> < 2 ^ 21\<close>, so the rounded
  quotient is within \<open>2 ^ - 33 < 1 / m\<close> of the exact one, and a quotient that is an
  integer is exact: by \<open>py_int_truediv_approx\<close> its integer part is the exact one's.
  The draw is the exact \<open>u\<close> with two relative errors of at most \<open>2 ^ - 53\<close> (the
  literal \<^verbatim>\<open>mrgnorm\<close> and the product): by \<open>mrg32k3a_u_rounded\<close> it stays strictly
  between 0 and 1.
\<close>

lemma py_int_truediv_approx:
  assumes "0 < m" "\<bar>q - py_truediv p m\<bar> < 1 / real_of_int m"
    and exact: "m dvd p \<Longrightarrow> q = py_truediv p m"
  shows "py_int q = py_int (py_truediv p m)"
proof (cases "m dvd p")
  case True
  then show ?thesis using exact by simp
next
  case False
  define k where "k = p div m"
  define r where "r = p mod m"
  define x where "x = py_truediv p m"
  have mr: "0 < real_of_int m" using assms(1) by simp
  have "0 \<le> r" "r < m" using assms(1) by (simp_all add: r_def)
  moreover have "r \<noteq> 0" using False by (simp add: r_def dvd_eq_mod_eq_0)
  ultimately have r: "1 \<le> r" "r \<le> m - 1" by simp_all
  have "p = k * m + r" by (simp add: k_def r_def)
  then have "real_of_int p = real_of_int k * real_of_int m + real_of_int r"
    by (metis of_int_add of_int_mult)
  then have x: "x = real_of_int k + real_of_int r / real_of_int m"
    using mr by (simp add: x_def py_truediv_def field_simps)
  have "1 / real_of_int m \<le> real_of_int r / real_of_int m"
    using r(1) mr by (simp add: divide_le_cancel)
  moreover have "real_of_int r / real_of_int m \<le> (real_of_int m - 1) / real_of_int m"
    using r(2) mr by (simp add: divide_le_cancel)
  moreover have "(real_of_int m - 1) / real_of_int m = 1 - 1 / real_of_int m"
    using mr by (simp add: field_simps)
  ultimately have xb: "real_of_int k + 1 / real_of_int m \<le> x" "x \<le> real_of_int k + 1 - 1 / real_of_int m"
    using x by simp_all
  have inv: "0 < 1 / real_of_int m" using mr by simp
  have "\<bar>q - x\<bar> < 1 / real_of_int m" using assms(2) by (simp add: x_def)
  then have qx: "q - x < 1 / real_of_int m" "x - q < 1 / real_of_int m" by linarith+
  have qb: "real_of_int k < q" "q < real_of_int k + 1"
    using xb qx by linarith+
  have xs: "real_of_int k < x" "x < real_of_int k + 1"
    using xb inv by linarith+
  show ?thesis
  proof (cases "0 \<le> k")
    case True
    then have "0 \<le> real_of_int k" by simp
    then have "\<not> q < 0" "\<not> x < 0" using qb(1) xs(1) by simp_all
    moreover have "\<lfloor>q\<rfloor> = k" using qb by (intro floor_unique) simp_all
    moreover have "\<lfloor>x\<rfloor> = k" using xs by (intro floor_unique) simp_all
    ultimately show ?thesis by (simp add: py_int_def x_def)
  next
    case False
    then have "k + 1 \<le> 0" by simp
    then have "real_of_int k + 1 \<le> 0" by (metis of_int_1 of_int_add of_int_le_0_iff)
    then have "q < 0" "x < 0" using qb(2) xs(2) by simp_all
    moreover have "\<lceil>q\<rceil> = k + 1" using qb by (intro ceiling_unique) simp_all
    moreover have "\<lceil>x\<rceil> = k + 1" using xs by (intro ceiling_unique) simp_all
    ultimately show ?thesis by (simp add: py_int_def x_def)
  qed
qed


lemma mrg32k3a_u_range:
  assumes "valid_state s"
  shows "\<exists>s' u. mrg32k3a s = Inr (s', u) \<and> mrgnorm \<le> u \<and> u \<le> real_of_int mrgm1 * mrgnorm"
proof -
  have m: "0 < mrgm1" "0 < mrgm2" by (simp_all add: mrgm1_def mrgm2_def)
  have len: "6 \<le> length s" using assms by (simp add: valid_state_def)
  define p1 where "p1 = (mrga12 * s ! 1 - mrga13n * s ! 0) mod mrgm1"
  define p2 where "p2 = (mrga21 * s ! 5 - mrga23n * s ! 3) mod mrgm2"
  define z where "z = (if p1 \<le> p2 then p1 - p2 + mrgm1 else p1 - p2)"
  have r1: "0 \<le> p1" "p1 < mrgm1" using m by (simp_all add: p1_def)
  have r2: "0 \<le> p2" "p2 < mrgm2" using m by (simp_all add: p2_def)
  have step: "mrg32k3a s = Inr ([s ! 1, s ! 2, p1, s ! 4, s ! 5, p2], real_of_int z * mrgnorm)"
    using len by (simp add: mrg32k3a_eq p1_def p2_def z_def)
  have z: "1 \<le> z" "z \<le> mrgm1"
    using r1 r2 by (auto simp add: z_def mrgm1_def mrgm2_def)
  have n: "0 < mrgnorm" by (simp add: mrgnorm_def)
  have "1 \<le> real_of_int z" using z(1) by simp
  then have lo: "mrgnorm \<le> real_of_int z * mrgnorm" using n by simp
  have "real_of_int z \<le> real_of_int mrgm1" using z(2) by simp
  then have hi: "real_of_int z * mrgnorm \<le> real_of_int mrgm1 * mrgnorm" using n by simp
  show ?thesis using step lo hi by blast
qed

lemma mrg32k3a_u_rounded:
  assumes "valid_state s" "mrg32k3a s = Inr (s', u)"
    and "\<bar>d1\<bar> \<le> 1 / 2 ^ 53" "\<bar>d2\<bar> \<le> 1 / 2 ^ 53"
  shows "0 < u * (1 + d1) * (1 + d2) \<and> u * (1 + d1) * (1 + d2) < 1"
proof -
  from mrg32k3a_u_range [OF assms(1)] assms(2)
  have u: "mrgnorm \<le> u" "u \<le> real_of_int mrgm1 * mrgnorm" by simp_all
  have n: "0 < mrgnorm" by (simp add: mrgnorm_def)
  have upos: "0 < u" using u(1) n by linarith
  have e1: "0 < 1 + d1" "1 + d1 \<le> 1 + 1 / 2 ^ 53" using assms(3) by (simp_all add: abs_le_iff)
  have e2: "0 < 1 + d2" "1 + d2 \<le> 1 + 1 / 2 ^ 53" using assms(4) by (simp_all add: abs_le_iff)
  have pos: "0 < u * (1 + d1) * (1 + d2)" using upos e1(1) e2(1) by simp
  define c where "c = real_of_int mrgm1 * mrgnorm"
  define e where "e = 1 + 1 / (2::real) ^ 53"
  have cpos: "0 \<le> c" by (simp add: c_def mrgm1_def mrgnorm_def)
  have epos: "0 \<le> e" by (simp add: e_def)
  have d1: "0 \<le> 1 + d1" "1 + d1 \<le> e" using e1 by (simp_all add: e_def)
  have d2: "0 \<le> 1 + d2" "1 + d2 \<le> e" using e2 by (simp_all add: e_def)
  have uc: "u \<le> c" using u(2) by (simp add: c_def)
  have s1: "u * (1 + d1) \<le> c * e"
    by (rule mult_mono [OF uc d1(2) cpos d1(1)])
  have cepos: "0 \<le> c * e" using cpos epos by simp
  have "u * (1 + d1) * (1 + d2) \<le> c * e * e"
    by (rule mult_mono [OF s1 d2(2) cepos d2(1)])
  also have "\<dots> < 1" by (simp add: c_def e_def mrgm1_def mrgnorm_def)
  finally show ?thesis using pos by simp
qed

section \<open>Powers by repeated squaring\<close>

text \<open>
  For an exponent \<open>2 ^ n\<close> the exponentiation squares the base \<open>n\<close> times and
  multiplies the result into the identity. The 47 squarings of \<open>A1p0\<close> modulo
  \<open>m1\<close> are evaluated eight at a time.
\<close>

lemma mat33_power_mod_0: "mat33_power_mod A 0 m = mat33_mod mat33_identity m"
  by (simp add: mat33_power_mod.simps)

lemma mat33_power_mod_pow2:
  "mat33_power_mod A (2 ^ n) m =
     mat33_mat33_mod ((mat33_square_mod m ^^ n) A) (mat33_mod mat33_identity m) m"
proof (induction n arbitrary: A)
  case 0
  show ?case
    by (subst mat33_power_mod.simps) (simp add: mat33_power_mod_0)
next
  case (Suc n)
  have "mat33_power_mod A (2 ^ Suc n) m = mat33_power_mod (mat33_mat33_mod A A m) (2 ^ n) m"
    by (subst mat33_power_mod.simps) simp
  also have "\<dots> = mat33_mat33_mod ((mat33_square_mod m ^^ n) (mat33_mat33_mod A A m))
      (mat33_mod mat33_identity m) m"
    by (rule Suc.IH)
  also have "(mat33_square_mod m ^^ n) (mat33_mat33_mod A A m) = (mat33_square_mod m ^^ Suc n) A"
    unfolding mat33_square_mod_def [symmetric] by (simp only: funpow_Suc_right o_apply)
  finally show ?case .
qed

lemma mat33_mat33_mod_explicit:
  "mat33_mat33_mod [[a11, a12, a13], [a21, a22, a23], [a31, a32, a33]]
                   [[b11, b12, b13], [b21, b22, b23], [b31, b32, b33]] m =
     [[(a11 * b11 + a12 * b21 + a13 * b31) mod m, (a11 * b12 + a12 * b22 + a13 * b32) mod m,
       (a11 * b13 + a12 * b23 + a13 * b33) mod m],
      [(a21 * b11 + a22 * b21 + a23 * b31) mod m, (a21 * b12 + a22 * b22 + a23 * b32) mod m,
       (a21 * b13 + a22 * b23 + a23 * b33) mod m],
      [(a31 * b11 + a32 * b21 + a33 * b31) mod m, (a31 * b12 + a32 * b22 + a33 * b32) mod m,
       (a31 * b13 + a32 * b23 + a33 * b33) mod m]]"
  by (simp add: mat33_mat33_mod_def mat33_mat33_mult_def mat33_mod_def mat31_mod_def)

lemma mat33_square_mod_explicit:
  "mat33_square_mod m [[a11, a12, a13], [a21, a22, a23], [a31, a32, a33]] =
     [[(a11 * a11 + a12 * a21 + a13 * a31) mod m, (a11 * a12 + a12 * a22 + a13 * a32) mod m,
       (a11 * a13 + a12 * a23 + a13 * a33) mod m],
      [(a21 * a11 + a22 * a21 + a23 * a31) mod m, (a21 * a12 + a22 * a22 + a23 * a32) mod m,
       (a21 * a13 + a22 * a23 + a23 * a33) mod m],
      [(a31 * a11 + a32 * a21 + a33 * a31) mod m, (a31 * a12 + a32 * a22 + a33 * a32) mod m,
       (a31 * a13 + a32 * a23 + a33 * a33) mod m]]"
  by (simp add: mat33_square_mod_def mat33_mat33_mod_explicit)

lemma funpow_7: "(f ^^ 7) x = f (f (f (f (f (f (f x))))))"
  by (simp add: eval_nat_numeral)

lemma funpow_8: "(f ^^ 8) x = f (f (f (f (f (f (f (f x)))))))"
  by (simp add: eval_nat_numeral)

lemma A1p0_squared_8:
  "(mat33_square_mod 4294967087 ^^ 8)
     [[0, 1, 0],
      [0, 0, 1],
      [- 810728, 1403580, 0]] =
   [[1170096663, 49135452, 3441537107],
    [1857945175, 1649398389, 49135452],
    [333002869, 3109147376, 1649398389]]"
  by (simp only: funpow_8) (simp add: mat33_square_mod_explicit)

lemma A1p0_squared_16:
  "(mat33_square_mod 4294967087 ^^ 8)
     [[1170096663, 49135452, 3441537107],
      [1857945175, 1649398389, 49135452],
      [333002869, 3109147376, 1649398389]] =
   [[2256493727, 3715182130, 642697923],
    [3615342722, 3975008370, 3715182130],
    [2405650329, 754337639, 3975008370]]"
  by (simp only: funpow_8) (simp add: mat33_square_mod_explicit)

lemma A1p0_squared_24:
  "(mat33_square_mod 4294967087 ^^ 8)
     [[2256493727, 3715182130, 642697923],
      [3615342722, 3975008370, 3715182130],
      [2405650329, 754337639, 3975008370]] =
   [[2409846784, 1096138313, 1416249993],
    [1501878241, 138013862, 1096138313],
    [1617749306, 1975136163, 138013862]]"
  by (simp only: funpow_8) (simp add: mat33_square_mod_explicit)

lemma A1p0_squared_32:
  "(mat33_square_mod 4294967087 ^^ 8)
     [[2409846784, 1096138313, 1416249993],
      [1501878241, 138013862, 1096138313],
      [1617749306, 1975136163, 138013862]] =
   [[1891490872, 1130489594, 3734864133],
    [1457450350, 3362920032, 1130489594],
    [638998846, 1401175590, 3362920032]]"
  by (simp only: funpow_8) (simp add: mat33_square_mod_explicit)

lemma A1p0_squared_40:
  "(mat33_square_mod 4294967087 ^^ 8)
     [[1891490872, 1130489594, 3734864133],
      [1457450350, 3362920032, 1130489594],
      [638998846, 1401175590, 3362920032]] =
   [[4171745404, 4064983592, 1934508265],
    [3049723261, 1744636487, 4064983592],
    [947753516, 3952135907, 1744636487]]"
  by (simp only: funpow_8) (simp add: mat33_square_mod_explicit)

lemma A1p0_squared_47:
  "(mat33_square_mod 4294967087 ^^ 7)
     [[4171745404, 4064983592, 1934508265],
      [3049723261, 1744636487, 4064983592],
      [947753516, 3952135907, 1744636487]] =
   [[1362557480, 3230022138, 4278720212],
    [3427386258, 3848976950, 3230022138],
    [2109817045, 2441486578, 3848976950]]"
  by (simp only: funpow_7) (simp add: mat33_square_mod_explicit)

lemma A1p0_squared_47_times:
  "(mat33_square_mod mrgm1 ^^ 47) A1p0 = A1p47"
proof -
  let ?f = "mat33_square_mod 4294967087"
  have "(47::nat) = 7 + (8 + (8 + (8 + (8 + 8))))" by simp
  then have "(?f ^^ 47) A1p0 = (?f ^^ 7) ((?f ^^ 8) ((?f ^^ 8) ((?f ^^ 8) ((?f ^^ 8) ((?f ^^ 8) A1p0)))))"
    by (simp only: funpow_add o_apply)
  also have "\<dots> = A1p47"
    unfolding A1p0_def mrga12_def mrga13n_def A1p47_def
    by (simp only: A1p0_squared_8 A1p0_squared_16 A1p0_squared_24 A1p0_squared_32
        A1p0_squared_40 A1p0_squared_47)
  finally show ?thesis by (simp only: mrgm1_def)
qed

subsection \<open>Repeated squaring computes the power\<close>

text \<open>
  On 3x3 matrices the product is associative and commutes with reduction modulo \<open>m\<close>,
  so the exponentiation by repeated squaring returns the plain power reduced modulo \<open>m\<close>,
  for every exponent.
\<close>

lemma length_3_conv: "length xs = 3 \<longleftrightarrow> (\<exists>a b c. xs = [a, b, c])"
  by (auto simp add: eval_nat_numeral length_Suc_conv)

lemma is_mat33_conv:
  "is_mat33 A \<longleftrightarrow>
     (\<exists>a11 a12 a13 a21 a22 a23 a31 a32 a33.
        A = [[a11, a12, a13], [a21, a22, a23], [a31, a32, a33]])"
  unfolding is_mat33_def length_3_conv by (auto simp add: length_3_conv)

lemma mat33_mat33_mult_explicit:
  "mat33_mat33_mult [[a11, a12, a13], [a21, a22, a23], [a31, a32, a33]]
                    [[b11, b12, b13], [b21, b22, b23], [b31, b32, b33]] =
     [[a11 * b11 + a12 * b21 + a13 * b31, a11 * b12 + a12 * b22 + a13 * b32,
       a11 * b13 + a12 * b23 + a13 * b33],
      [a21 * b11 + a22 * b21 + a23 * b31, a21 * b12 + a22 * b22 + a23 * b32,
       a21 * b13 + a22 * b23 + a23 * b33],
      [a31 * b11 + a32 * b21 + a33 * b31, a31 * b12 + a32 * b22 + a33 * b32,
       a31 * b13 + a32 * b23 + a33 * b33]]"
  by (simp add: mat33_mat33_mult_def)

lemma mat33_mod_explicit:
  "mat33_mod [[a11, a12, a13], [a21, a22, a23], [a31, a32, a33]] m =
     [[a11 mod m, a12 mod m, a13 mod m], [a21 mod m, a22 mod m, a23 mod m],
      [a31 mod m, a32 mod m, a33 mod m]]"
  by (simp add: mat33_mod_def mat31_mod_def)

lemma is_mat33_mult: "is_mat33 A \<Longrightarrow> is_mat33 (mat33_mat33_mult A B)"
  by (simp add: is_mat33_def mat33_mat33_mult_def list_all_iff)

lemma is_mat33_mod: "is_mat33 A \<Longrightarrow> is_mat33 (mat33_mod A m)"
  by (simp add: is_mat33_def mat33_mod_def mat31_mod_def list_all_iff)

lemma is_mat33_identity: "is_mat33 mat33_identity"
  by (simp add: is_mat33_def mat33_identity_def)

lemma is_mat33_power: "is_mat33 A \<Longrightarrow> is_mat33 (mat33_power A n)"
  by (cases n) (simp_all add: is_mat33_identity is_mat33_mult)

lemma mat33_mult_assoc:
  assumes "is_mat33 A" "is_mat33 B" "is_mat33 C"
  shows "mat33_mat33_mult (mat33_mat33_mult A B) C = mat33_mat33_mult A (mat33_mat33_mult B C)"
proof -
  from assms(1) obtain a11 a12 a13 a21 a22 a23 a31 a32 a33 where
    "A = [[a11, a12, a13], [a21, a22, a23], [a31, a32, a33]]"
    unfolding is_mat33_conv by blast
  moreover from assms(2) obtain b11 b12 b13 b21 b22 b23 b31 b32 b33 where
    "B = [[b11, b12, b13], [b21, b22, b23], [b31, b32, b33]]"
    unfolding is_mat33_conv by blast
  moreover from assms(3) obtain c11 c12 c13 c21 c22 c23 c31 c32 c33 where
    "C = [[c11, c12, c13], [c21, c22, c23], [c31, c32, c33]]"
    unfolding is_mat33_conv by blast
  ultimately show ?thesis
    by (simp add: mat33_mat33_mult_explicit algebra_simps)
qed

lemma mat33_mult_identity:
  assumes "is_mat33 A"
  shows "mat33_mat33_mult A mat33_identity = A" "mat33_mat33_mult mat33_identity A = A"
proof -
  from assms obtain a11 a12 a13 a21 a22 a23 a31 a32 a33 where
    "A = [[a11, a12, a13], [a21, a22, a23], [a31, a32, a33]]"
    unfolding is_mat33_conv by blast
  then show "mat33_mat33_mult A mat33_identity = A" "mat33_mat33_mult mat33_identity A = A"
    by (simp_all add: mat33_mat33_mult_explicit mat33_identity_def)
qed

lemma mod_lin3_left:
  "(a mod m * x + b mod m * y + c mod m * z) mod m = (a * x + b * y + c * z) mod (m::int)"
  by (intro mod_add_cong mod_mult_cong) simp_all

lemma mod_lin3_right:
  "(x * (a mod m) + y * (b mod m) + z * (c mod m)) mod m = (x * a + y * b + z * c) mod (m::int)"
  by (intro mod_add_cong mod_mult_cong) simp_all

lemma mat33_mod_mult:
  assumes "is_mat33 A" "is_mat33 B"
  shows "mat33_mod (mat33_mat33_mult (mat33_mod A m) B) m = mat33_mod (mat33_mat33_mult A B) m"
    and "mat33_mod (mat33_mat33_mult A (mat33_mod B m)) m = mat33_mod (mat33_mat33_mult A B) m"
proof -
  from assms(1) obtain a11 a12 a13 a21 a22 a23 a31 a32 a33 where
    "A = [[a11, a12, a13], [a21, a22, a23], [a31, a32, a33]]"
    unfolding is_mat33_conv by blast
  moreover from assms(2) obtain b11 b12 b13 b21 b22 b23 b31 b32 b33 where
    "B = [[b11, b12, b13], [b21, b22, b23], [b31, b32, b33]]"
    unfolding is_mat33_conv by blast
  ultimately show "mat33_mod (mat33_mat33_mult (mat33_mod A m) B) m = mat33_mod (mat33_mat33_mult A B) m"
    and "mat33_mod (mat33_mat33_mult A (mat33_mod B m)) m = mat33_mod (mat33_mat33_mult A B) m"
    by (simp_all add: mat33_mat33_mult_explicit mat33_mod_explicit mod_lin3_left mod_lin3_right)
qed


lemma mat33_mod_idem: "mat33_mod (mat33_mod A m) m = mat33_mod A m"
  by (simp add: mat33_mod_def mat31_mod_def)

lemma mat33_power_add:
  assumes "is_mat33 A"
  shows "mat33_power A (j + k) = mat33_mat33_mult (mat33_power A j) (mat33_power A k)"
proof (induction j)
  case 0
  show ?case using assms by (simp add: mat33_mult_identity is_mat33_power)
next
  case (Suc j)
  show ?case
    using assms Suc by (simp add: mat33_mult_assoc is_mat33_power)
qed

lemma mat33_power_square:
  assumes "is_mat33 A"
  shows "mat33_power (mat33_mat33_mult A A) k = mat33_power A (2 * k)"
proof (induction k)
  case 0
  show ?case by simp
next
  case (Suc k)
  have "mat33_power (mat33_mat33_mult A A) (Suc k) =
      mat33_mat33_mult (mat33_mat33_mult A A) (mat33_power A (2 * k))"
    using Suc by simp
  also have "\<dots> = mat33_mat33_mult A (mat33_mat33_mult A (mat33_power A (2 * k)))"
    using assms by (simp add: mat33_mult_assoc is_mat33_power)
  also have "\<dots> = mat33_power A (2 * Suc k)" by simp
  finally show ?case .
qed

lemma mat33_power_mod_base:
  assumes "is_mat33 A"
  shows "mat33_mod (mat33_power (mat33_mod A m) k) m = mat33_mod (mat33_power A k) m"
proof (induction k)
  case 0
  show ?case by simp
next
  case (Suc k)
  have a: "is_mat33 (mat33_mod A m)" using assms by (rule is_mat33_mod)
  have "mat33_mod (mat33_power (mat33_mod A m) (Suc k)) m =
      mat33_mod (mat33_mat33_mult (mat33_mod A m) (mat33_power (mat33_mod A m) k)) m"
    by simp
  also have "\<dots> = mat33_mod (mat33_mat33_mult A (mat33_power (mat33_mod A m) k)) m"
    using assms a by (simp add: mat33_mod_mult(1) is_mat33_power)
  also have "\<dots> = mat33_mod (mat33_mat33_mult A (mat33_mod (mat33_power (mat33_mod A m) k) m)) m"
    using assms a by (simp add: mat33_mod_mult(2) is_mat33_power)
  also have "\<dots> = mat33_mod (mat33_mat33_mult A (mat33_mod (mat33_power A k) m)) m"
    using Suc by simp
  also have "\<dots> = mat33_mod (mat33_mat33_mult A (mat33_power A k)) m"
    using assms by (simp add: mat33_mod_mult(2) is_mat33_power)
  finally show ?case by simp
qed

lemma mat33_power_mod_correct:
  assumes "is_mat33 A"
  shows "mat33_power_mod A j m = mat33_mod (mat33_power A j) m"
  using assms
proof (induction A j m rule: mat33_power_mod.induct)
  case (1 A j m)
  let ?B = "mat33_mat33_mod A A m"
  have B: "is_mat33 ?B"
    using "1.prems" by (simp add: mat33_mat33_mod_def is_mat33_mod is_mat33_mult)
  have half: "mat33_mod (mat33_power ?B k) m = mat33_mod (mat33_power A (2 * k)) m" for k
  proof -
    have "mat33_mod (mat33_power ?B k) m = mat33_mod (mat33_power (mat33_mat33_mult A A) k) m"
      unfolding mat33_mat33_mod_def
      using "1.prems" by (intro mat33_power_mod_base) (simp add: is_mat33_mult)
    then show ?thesis using "1.prems" by (simp add: mat33_power_square)
  qed
  show ?case
  proof (cases "j = 0")
    case True
    then show ?thesis by (simp add: mat33_power_mod.simps)
  next
    case nz: False
    show ?thesis
    proof (cases "odd j")
      case True
      then obtain k where k: "j = Suc (2 * k)" by (auto elim: oddE)
      have "mat33_power_mod A j m = mat33_mat33_mod A (mat33_power_mod ?B (j div 2) m) m"
        using nz True by (subst mat33_power_mod.simps) simp
      also have "mat33_power_mod ?B (j div 2) m = mat33_mod (mat33_power ?B (j div 2)) m"
        using nz True B by (intro "1.IH"(1)) simp_all
      also have "\<dots> = mat33_mod (mat33_power A (2 * k)) m"
        using half [of k] k by simp
      also have "mat33_mat33_mod A (mat33_mod (mat33_power A (2 * k)) m) m =
          mat33_mod (mat33_mat33_mult A (mat33_power A (2 * k))) m"
        unfolding mat33_mat33_mod_def
        using "1.prems" by (simp add: mat33_mod_mult(2) is_mat33_power)
      finally show ?thesis using k by simp
    next
      case False
      then obtain k where k: "j = 2 * k" by (auto elim: evenE)
      have "mat33_power_mod A j m = mat33_power_mod ?B (j div 2) m"
        using nz False by (subst mat33_power_mod.simps) simp
      also have "\<dots> = mat33_mod (mat33_power ?B (j div 2)) m"
        using nz False B by (intro "1.IH"(2)) simp_all
      also have "\<dots> = mat33_mod (mat33_power A (2 * k)) m"
        using half [of k] k by simp
      finally show ?thesis using k by simp
    qed
  qed
qed

section \<open>Properties of the stream hierarchy\<close>

text \<open>
  C10. \<^verbatim>\<open>reset_stream\<close> sets the current state, \<open>substream_start\<close> and
  \<open>subsubstream_start\<close> to \<open>stream_start\<close> and leaves \<open>stream_start\<close> as it is;
  \<^verbatim>\<open>reset_substream\<close> sets the current state and \<open>subsubstream_start\<close> to
  \<open>substream_start\<close> and leaves \<open>substream_start\<close> (and \<open>stream_start\<close>) as they are.
\<close>

theorem reset_overwrites_lower_anchors:
  assumes "wf_rng r"
  shows "\<exists>r1 r2. reset_stream r = Inr r1 \<and>
           current_state r1 = stream_start r \<and> substream_start r1 = stream_start r \<and>
           subsubstream_start r1 = stream_start r \<and> stream_start r1 = stream_start r \<and>
           reset_substream r = Inr r2 \<and>
           current_state r2 = substream_start r \<and> subsubstream_start r2 = substream_start r \<and>
           substream_start r2 = substream_start r \<and> stream_start r2 = stream_start r"
  using assms by (simp add: wf_rng_def reset_stream_eq reset_substream_eq)

theorem reset_overwrites_lower_anchors_witness:
  "wf_rng sample_rng \<and>
   (\<exists>r1 r2. reset_stream sample_rng = Inr r1 \<and>
      current_state r1 = stream_start sample_rng \<and>
      substream_start r1 = stream_start sample_rng \<and>
      subsubstream_start r1 = stream_start sample_rng \<and>
      stream_start r1 = stream_start sample_rng \<and>
      reset_substream sample_rng = Inr r2 \<and>
      current_state r2 = substream_start sample_rng \<and>
      subsubstream_start r2 = substream_start sample_rng \<and>
      substream_start r2 = substream_start sample_rng \<and>
      stream_start r2 = stream_start sample_rng)"
  using reset_overwrites_lower_anchors [OF wf_sample_rng] wf_sample_rng by simp

text \<open>
  C3. The claim is that \<^verbatim>\<open>advance_stream\<close> increments index component 0 and sets
  components 1 and 2 to zero, and that \<^verbatim>\<open>advance_substream\<close> increments component 1
  and sets component 2 to zero. The code increments the one component and writes no other:
  from the index \<open>[1, 1, 1]\<close>, \<^verbatim>\<open>advance_stream\<close> gives \<open>[2, 1, 1]\<close> (not
  \<open>[2, 0, 0]\<close>) and \<^verbatim>\<open>advance_substream\<close> gives \<open>[1, 2, 1]\<close> (not \<open>[1, 2, 0]\<close>).
\<close>

theorem advance_keeps_lower_indices:
  "map_sum id s_ss_sss_index (advance_stream sample_rng) = Inr [2, 1, 1] \<and>
   map_sum id s_ss_sss_index (advance_substream sample_rng) = Inr [1, 2, 1]"
  by (simp add: advance_stream_eq advance_substream_eq sample_rng_def)

text \<open>
  C1. For every triplet of non-negative integers \<open>(a, b, c)\<close>,
  \<^verbatim>\<open>start_fixed_s_ss_sss(rng, [a, b, c])\<close> yields the same current state,
  \<open>stream_start\<close>, \<open>substream_start\<close> and \<open>subsubstream_start\<close> as
  \<^verbatim>\<open>start_fixed_s_ss_sss(rng, [0, 0, 0])\<close> followed by \<open>a\<close> calls of
  \<^verbatim>\<open>advance_stream\<close>, \<open>b\<close> of \<^verbatim>\<open>advance_substream\<close> and \<open>c\<close> of
  \<^verbatim>\<open>advance_subsubstream\<close>; both sequences return normally. The generator is any
  one whose reference seed has six components, as \<^verbatim>\<open>__init__\<close> asserts.
\<close>

theorem start_fixed_equals_sequential_advance:
  assumes "length (ref_seed r) = 6"
  shows "\<exists>r1 r2. start_fixed_s_ss_sss r [int a, int b, int c] = Inr r1 \<and>
           repeat_op c advance_subsubstream
             (repeat_op b advance_substream
               (repeat_op a advance_stream (start_fixed_s_ss_sss r [0, 0, 0]))) = Inr r2 \<and>
           current_state r1 = current_state r2 \<and> stream_start r1 = stream_start r2 \<and>
           substream_start r1 = substream_start r2 \<and>
           subsubstream_start r1 = subsubstream_start r2"
proof -
  let ?s1 = "(jump_state A1p141 A2p141 ^^ a) (ref_seed r)"
  let ?s2 = "(jump_state A1p94 A2p94 ^^ b) ?s1"
  let ?s3 = "(jump_state A1p47 A2p47 ^^ c) ?s2"
  define r0 where "r0 = r\<lparr>current_state := ref_seed r, s_ss_sss_index := [0, 0, 0],
      stream_start := ref_seed r, substream_start := ref_seed r, subsubstream_start := ref_seed r\<rparr>"
  have fixed: "start_fixed_s_ss_sss r [int a, int b, int c] =
      Inr (r\<lparr>current_state := ?s3, s_ss_sss_index := [int a, int b, int c],
             stream_start := ?s1, substream_start := ?s2, subsubstream_start := ?s3\<rparr>)"
    using assms by (simp add: start_fixed_s_ss_sss_eq)
  have zero: "start_fixed_s_ss_sss r [0, 0, 0] = Inr r0"
    using assms by (simp add: start_fixed_s_ss_sss_eq r0_def)
  have idx0: "3 \<le> length (s_ss_sss_index r0)" by (simp add: r0_def)
  from repeat_advance_stream [OF idx0, of a] obtain ra where
    ra: "repeat_op a advance_stream (Inr r0) = Inr ra"
      "stream_start ra = (jump_state A1p141 A2p141 ^^ a) (stream_start r0)"
      "0 < a \<longrightarrow> substream_start ra = stream_start ra \<and>
          subsubstream_start ra = stream_start ra \<and> current_state ra = stream_start ra"
      "a = 0 \<longrightarrow> ra = r0"
      "length (s_ss_sss_index ra) = length (s_ss_sss_index r0)"
    by blast
  have ra_all: "stream_start ra = ?s1" "substream_start ra = ?s1"
      "subsubstream_start ra = ?s1" "current_state ra = ?s1"
    using ra(2,3,4) by (cases "a = 0"; simp add: r0_def)+
  have idxa: "3 \<le> length (s_ss_sss_index ra)" using ra(5) idx0 by simp
  from repeat_advance_substream [OF idxa, of b] obtain rb where
    rb: "repeat_op b advance_substream (Inr ra) = Inr rb"
      "stream_start rb = stream_start ra"
      "substream_start rb = (jump_state A1p94 A2p94 ^^ b) (substream_start ra)"
      "0 < b \<longrightarrow> subsubstream_start rb = substream_start rb \<and> current_state rb = substream_start rb"
      "b = 0 \<longrightarrow> rb = ra"
      "length (s_ss_sss_index rb) = length (s_ss_sss_index ra)"
    by blast
  have rb_all: "stream_start rb = ?s1" "substream_start rb = ?s2"
      "subsubstream_start rb = ?s2" "current_state rb = ?s2"
    using rb(2,3,4,5) ra_all by (cases "b = 0"; simp)+
  have idxb: "3 \<le> length (s_ss_sss_index rb)" using rb(6) idxa by simp
  from repeat_advance_subsubstream [OF idxb, of c] obtain rc where
    rc: "repeat_op c advance_subsubstream (Inr rb) = Inr rc"
      "stream_start rc = stream_start rb" "substream_start rc = substream_start rb"
      "subsubstream_start rc = (jump_state A1p47 A2p47 ^^ c) (subsubstream_start rb)"
      "0 < c \<longrightarrow> current_state rc = subsubstream_start rc"
      "c = 0 \<longrightarrow> rc = rb"
    by blast
  have rc_all: "stream_start rc = ?s1" "substream_start rc = ?s2"
      "subsubstream_start rc = ?s3" "current_state rc = ?s3"
    using rc(2,3,4,5,6) rb_all by (cases "c = 0"; simp)+
  have "repeat_op c advance_subsubstream
             (repeat_op b advance_substream
               (repeat_op a advance_stream (start_fixed_s_ss_sss r [0, 0, 0]))) = Inr rc"
    by (simp add: zero ra(1) rb(1) rc(1))
  then show ?thesis
    using fixed rc_all by simp
qed

theorem start_fixed_equals_sequential_advance_witness:
  "length (ref_seed default_rng) = 6 \<and>
   (\<exists>r1 r2. start_fixed_s_ss_sss default_rng [int 1, int 1, int 1] = Inr r1 \<and>
           repeat_op 1 advance_subsubstream
             (repeat_op 1 advance_substream
               (repeat_op 1 advance_stream (start_fixed_s_ss_sss default_rng [0, 0, 0]))) = Inr r2 \<and>
           current_state r1 = current_state r2 \<and> stream_start r1 = stream_start r2 \<and>
           substream_start r1 = substream_start r2 \<and>
           subsubstream_start r1 = subsubstream_start r2)"
proof -
  have len: "length (ref_seed default_rng) = 6"
    by (simp add: default_rng_def default_ref_seed_def)
  show ?thesis
    using start_fixed_equals_sequential_advance [OF len, of 1 1 1] len by simp
qed

text \<open>
  C5 as amended. \<^verbatim>\<open>reset_stream()\<close>, then \<^verbatim>\<open>advance_substream()\<close> \<open>k \<ge> 1\<close>
  times, then \<^verbatim>\<open>reset_substream()\<close> leaves the generator in the current state it had
  immediately after the last (the \<open>k\<close>-th) of these \<^verbatim>\<open>advance_substream()\<close> calls,
  which is the stream start advanced by \<open>k\<close> substream jumps. For \<open>k = 1\<close> the last
  call is the first.
\<close>

theorem reset_substream_returns_to_last_advance:
  assumes "wf_rng r" "1 \<le> k"
  shows "\<exists>ra rb. repeat_op k advance_substream (reset_stream r) = Inr ra \<and>
           reset_substream ra = Inr rb \<and>
           current_state rb = current_state ra \<and>
           current_state ra = (jump_state A1p94 A2p94 ^^ k) (stream_start r)"
proof -
  define r0 where "r0 = r\<lparr>current_state := stream_start r,
           s_ss_sss_index := (s_ss_sss_index r)[1 := 0, 2 := 0],
           substream_start := stream_start r,
           subsubstream_start := stream_start r\<rparr>"
  have reset: "reset_stream r = Inr r0"
    unfolding r0_def using assms(1) by (intro reset_stream_eq) (simp_all add: wf_rng_def)
  have idx0: "3 \<le> length (s_ss_sss_index r0)"
    using assms(1) by (simp add: r0_def wf_rng_def)
  from repeat_advance_substream [OF idx0, of k] obtain ra where
    ra: "repeat_op k advance_substream (Inr r0) = Inr ra"
      "substream_start ra = (jump_state A1p94 A2p94 ^^ k) (substream_start r0)"
      "0 < k \<longrightarrow> subsubstream_start ra = substream_start ra \<and> current_state ra = substream_start ra"
      "length (s_ss_sss_index ra) = length (s_ss_sss_index r0)"
    by blast
  have cur: "current_state ra = substream_start ra" using ra(3) assms(2) by simp
  have len: "length (substream_start ra) = 6"
    using assms(1) ra(2) by (simp add: length_funpow_jump_state r0_def wf_rng_def)
  have "reset_substream ra =
      Inr (ra\<lparr>current_state := substream_start ra,
           s_ss_sss_index := (s_ss_sss_index ra)[2 := 0],
           subsubstream_start := substream_start ra\<rparr>)"
    using len ra(4) idx0 by (intro reset_substream_eq) simp_all
  then show ?thesis
    using reset ra(1,2) cur by (simp add: r0_def)
qed

theorem reset_substream_returns_to_last_advance_witness:
  "wf_rng sample_rng \<and> (1::nat) \<le> 2 \<and>
   (\<exists>ra rb. repeat_op 2 advance_substream (reset_stream sample_rng) = Inr ra \<and>
           reset_substream ra = Inr rb \<and>
           current_state rb = current_state ra \<and>
           current_state ra = (jump_state A1p94 A2p94 ^^ 2) (stream_start sample_rng))"
  using reset_substream_returns_to_last_advance [OF wf_sample_rng, of 2] wf_sample_rng by simp

text \<open>
  C5 as stated (the state after the first \<^verbatim>\<open>advance_substream()\<close> call) fails for
  \<open>k = 2\<close> on the default generator: the reset returns to the start of the second
  substream, not of the first.
\<close>

theorem reset_substream_not_first_advance:
  "map_sum id current_state
     (then_op (repeat_op 2 advance_substream (reset_stream default_rng)) reset_substream) =
     Inr [931846445, 1181187283, 667235758, 2587291224, 3242677801, 1785001123] \<and>
   map_sum id current_state (repeat_op 1 advance_substream (reset_stream default_rng)) =
     Inr [2846945485, 910185678, 1444894002, 3922816327, 4066457861, 463820379] \<and>
   map_sum id current_state
     (then_op (repeat_op 2 advance_substream (reset_stream default_rng)) reset_substream) \<noteq>
   map_sum id current_state (repeat_op 1 advance_substream (reset_stream default_rng))"
proof -
  have a: "reset_stream default_rng = Inr default_rng"
    by (simp add: reset_stream_eq default_rng_def default_ref_seed_def)
  have b: "advance_substream default_rng =
      Inr (default_rng\<lparr>current_state := [2846945485, 910185678, 1444894002, 3922816327, 4066457861, 463820379],
           s_ss_sss_index := [0, 1, 0],
           substream_start := [2846945485, 910185678, 1444894002, 3922816327, 4066457861, 463820379],
           subsubstream_start := [2846945485, 910185678, 1444894002, 3922816327, 4066457861, 463820379]\<rparr>)"
    by (simp add: advance_substream_eq default_rng_def jump_state_eval)
  show ?thesis
    by (simp add: a b numeral_2_eq_2 advance_substream_eq reset_substream_eq jump_state_eval)
qed

section \<open>Properties of the core step and of the generator object\<close>

text \<open>
  C7. For every state within its modulus ranges the draw \<open>u\<close> returned by the core
  step satisfies \<open>0 < u < 1\<close>, and so does every draw of any number of consecutive
  \<^verbatim>\<open>random()\<close> calls of a generator whose current state is within the ranges; the
  calls return normally.
\<close>

theorem draw_in_open_unit_interval:
  assumes "valid_state s" "valid_state (current_state r)"
  shows "(\<exists>s' u. mrg32k3a s = Inr (s', u) \<and> 0 < u \<and> u < 1) \<and>
         (\<exists>us r'. draws n r = Inr (us, r') \<and> length us = n \<and> (\<forall>u \<in> set us. 0 < u \<and> u < 1))"
proof -
  from mrg32k3a_valid [OF assms(1)] have "\<exists>s' u. mrg32k3a s = Inr (s', u) \<and> 0 < u \<and> u < 1"
    by blast
  moreover from draws_valid [OF assms(2), of n]
  have "\<exists>us r'. draws n r = Inr (us, r') \<and> length us = n \<and> (\<forall>u \<in> set us. 0 < u \<and> u < 1)"
    by blast
  ultimately show ?thesis by blast
qed

theorem draw_in_open_unit_interval_witness:
  "valid_state default_ref_seed \<and> valid_state (current_state default_rng) \<and>
   (\<exists>s' u. mrg32k3a default_ref_seed = Inr (s', u) \<and> 0 < u \<and> u < 1) \<and>
   (\<exists>us r'. draws 3 default_rng = Inr (us, r') \<and> length us = 3 \<and> (\<forall>u \<in> set us. 0 < u \<and> u < 1))"
proof -
  have v: "valid_state (current_state default_rng)"
    using valid_default_ref_seed by (simp add: default_rng_def)
  show ?thesis
    using draw_in_open_unit_interval [OF valid_default_ref_seed v, of 3] valid_default_ref_seed v
    by simp
qed

text \<open>
  C2. One core step from \<open>(12345, 12345, 12345, 12345, 12345, 12345)\<close> returns the state
  \<open>(12345, 12345, 3023790853, 12345, 12345, 2478282264)\<close> and the draw
  \<open>545508589 * mrgnorm\<close>, which lies in \<open>[0.1270105, 0.1270115)\<close> and so is 0.127011 to
  five significant digits. The quotients are rounded toward zero: here \<open>k1 = 1\<close> and
  \<open>k2 = -2\<close> where the floor is \<open>-3\<close>, and for every intermediate product \<open>p\<close> the
  quotient is \<open>p div m\<close> for \<open>p \<ge> 0\<close> and \<open>- ((- p) div m)\<close> for \<open>p < 0\<close>.
\<close>

theorem known_answer_draw:
  "mrg32k3a [12345, 12345, 12345, 12345, 12345, 12345] =
     Inr ([12345, 12345, 3023790853, 12345, 12345, 2478282264], 545508589 * mrgnorm) \<and>
   1270105 / 10 ^ 7 \<le> 545508589 * mrgnorm \<and> 545508589 * mrgnorm < 1270115 / 10 ^ 7 \<and>
   py_int (py_truediv (mrga12 * 12345 - mrga13n * 12345) mrgm1) = 1 \<and>
   py_int (py_truediv (mrga21 * 12345 - mrga23n * 12345) mrgm2) = - 2 \<and>
   \<lfloor>py_truediv (mrga21 * 12345 - mrga23n * 12345) mrgm2\<rfloor> = - 3 \<and>
   py_int (py_truediv p mrgm1) = (if p < 0 then - ((- p) div mrgm1) else p div mrgm1) \<and>
   py_int (py_truediv p mrgm2) = (if p < 0 then - ((- p) div mrgm2) else p div mrgm2)"
proof -
  have m: "0 < mrgm1" "0 < mrgm2" by (simp_all add: mrgm1_def mrgm2_def)
  have step: "mrg32k3a [12345, 12345, 12345, 12345, 12345, 12345] =
     Inr ([12345, 12345, 3023790853, 12345, 12345, 2478282264], 545508589 * mrgnorm)"
    by (simp add: mrg32k3a_def mrgm1_def mrgm2_def mrga12_def mrga13n_def mrga21_def mrga23n_def
        py_int_def py_truediv_def Let_def)
  have u: "1270105 / 10 ^ 7 \<le> 545508589 * mrgnorm" "545508589 * mrgnorm < 1270115 / 10 ^ 7"
    by (simp_all add: mrgnorm_def)
  have k: "py_int (py_truediv (mrga12 * 12345 - mrga13n * 12345) mrgm1) = 1"
    "py_int (py_truediv (mrga21 * 12345 - mrga23n * 12345) mrgm2) = - 2"
    "\<lfloor>py_truediv (mrga21 * 12345 - mrga23n * 12345) mrgm2\<rfloor> = - 3"
    by (simp_all add: mrgm1_def mrgm2_def mrga12_def mrga13n_def mrga21_def mrga23n_def
        py_int_def py_truediv_def)
  show ?thesis
    using step u k py_int_truediv [OF m(1), of p] py_int_truediv [OF m(2), of p] by simp
qed

text \<open>
  C6. From states within their modulus ranges, the core step, a draw, the three advances,
  the three resets and \<^verbatim>\<open>start_fixed_s_ss_sss\<close> (with a triplet of at least three
  components) return normally and every state of the result (current state and anchors)
  is again within the ranges.
\<close>

theorem operations_keep_states_in_range:
  assumes "valid_state s" "valid_rng r" "3 \<le> length t"
  shows "(\<exists>s' u. mrg32k3a s = Inr (s', u) \<and> valid_state s') \<and>
         (\<exists>u r'. random r = Inr (u, r') \<and> valid_rng r') \<and>
         (\<exists>r'. advance_stream r = Inr r' \<and> valid_rng r') \<and>
         (\<exists>r'. advance_substream r = Inr r' \<and> valid_rng r') \<and>
         (\<exists>r'. advance_subsubstream r = Inr r' \<and> valid_rng r') \<and>
         (\<exists>r'. reset_stream r = Inr r' \<and> valid_rng r') \<and>
         (\<exists>r'. reset_substream r = Inr r' \<and> valid_rng r') \<and>
         (\<exists>r'. reset_subsubstream r = Inr r' \<and> valid_rng r') \<and>
         (\<exists>r'. start_fixed_s_ss_sss r t = Inr r' \<and> valid_rng r')"
proof -
  have idx: "3 \<le> length (s_ss_sss_index r)" using assms(2) by (simp add: valid_rng_def)
  have len: "length (ref_seed r) = 6" "length (stream_start r) = 6"
    "length (substream_start r) = 6" "length (subsubstream_start r) = 6"
    using assms(2) by (simp_all add: valid_rng_def valid_state_def)
  have c1: "\<exists>s' u. mrg32k3a s = Inr (s', u) \<and> valid_state s'"
    using mrg32k3a_valid [OF assms(1)] by blast
  have "valid_state (current_state r)" using assms(2) by (simp add: valid_rng_def)
  from random_valid [OF this] obtain u s' where
    "random r = Inr (u, r\<lparr>current_state := s'\<rparr>)" "valid_state s'" by blast
  then have c2: "\<exists>u r'. random r = Inr (u, r') \<and> valid_rng r'"
    using assms(2) by (auto simp add: valid_rng_def)
  have c3: "\<exists>r'. advance_stream r = Inr r' \<and> valid_rng r'"
    using assms(2) idx by (simp add: advance_stream_eq valid_rng_def valid_jump_state)
  have c4: "\<exists>r'. advance_substream r = Inr r' \<and> valid_rng r'"
    using assms(2) idx by (simp add: advance_substream_eq valid_rng_def valid_jump_state)
  have c5: "\<exists>r'. advance_subsubstream r = Inr r' \<and> valid_rng r'"
    using assms(2) idx by (simp add: advance_subsubstream_eq valid_rng_def valid_jump_state)
  have c6: "\<exists>r'. reset_stream r = Inr r' \<and> valid_rng r'"
    using assms(2) idx len by (simp add: reset_stream_eq valid_rng_def)
  have c7: "\<exists>r'. reset_substream r = Inr r' \<and> valid_rng r'"
    using assms(2) idx len by (simp add: reset_substream_eq valid_rng_def)
  have c8: "\<exists>r'. reset_subsubstream r = Inr r' \<and> valid_rng r'"
    using assms(2) idx len by (simp add: reset_subsubstream_eq valid_rng_def)
  have c9: "\<exists>r'. start_fixed_s_ss_sss r t = Inr r' \<and> valid_rng r'"
    using assms(2,3) len
    by (simp add: start_fixed_s_ss_sss_eq valid_rng_def valid_funpow_jump_state)
  show ?thesis using c1 c2 c3 c4 c5 c6 c7 c8 c9 by blast
qed

theorem operations_keep_states_in_range_witness:
  "valid_state default_ref_seed \<and> valid_rng sample_rng \<and> 3 \<le> length [1, 2, 3 :: int] \<and>
   (\<exists>s' u. mrg32k3a default_ref_seed = Inr (s', u) \<and> valid_state s') \<and>
   (\<exists>u r'. random sample_rng = Inr (u, r') \<and> valid_rng r') \<and>
   (\<exists>r'. advance_stream sample_rng = Inr r' \<and> valid_rng r') \<and>
   (\<exists>r'. advance_substream sample_rng = Inr r' \<and> valid_rng r') \<and>
   (\<exists>r'. advance_subsubstream sample_rng = Inr r' \<and> valid_rng r') \<and>
   (\<exists>r'. reset_stream sample_rng = Inr r' \<and> valid_rng r') \<and>
   (\<exists>r'. reset_substream sample_rng = Inr r' \<and> valid_rng r') \<and>
   (\<exists>r'. reset_subsubstream sample_rng = Inr r' \<and> valid_rng r') \<and>
   (\<exists>r'. start_fixed_s_ss_sss sample_rng [1, 2, 3] = Inr r' \<and> valid_rng r')"
proof -
  have t: "3 \<le> length [1, 2, 3 :: int]" by simp
  show ?thesis
    using operations_keep_states_in_range [OF valid_default_ref_seed valid_sample_rng t]
      valid_default_ref_seed valid_sample_rng
    by simp
qed





section \<open>The jump matrix constant\<close>

text \<open>
  C9. Raising the base matrix \<open>A1p0\<close> of the first recursion to the power \<open>2 ^ 47\<close>
  modulo \<open>m1 = 4294967087\<close> gives exactly the literal constant \<open>A1p47\<close> of the
  code: by the exponentiation by repeated squaring, and as the plain power (the product
  of \<open>2 ^ 47\<close> factors) reduced modulo \<open>m1\<close>, which every correct modular
  exponentiation returns.
\<close>

theorem A1p47_is_power_of_A1p0:
  "mat33_power_mod A1p0 (2 ^ 47) mrgm1 = A1p47 \<and>
   mat33_mod (mat33_power A1p0 (2 ^ 47)) mrgm1 = A1p47"
proof -
  have "mat33_mat33_mod A1p47 (mat33_mod mat33_identity mrgm1) mrgm1 = A1p47"
    by (simp add: mat33_mat33_mod_explicit mat33_mod_def mat31_mod_def mat33_identity_def
        A1p47_def mrgm1_def)
  then have a: "mat33_power_mod A1p0 (2 ^ 47) mrgm1 = A1p47"
    by (simp only: mat33_power_mod_pow2 A1p0_squared_47_times)
  have "is_mat33 A1p0" by (simp add: is_mat33_def A1p0_def)
  then have "mat33_power_mod A1p0 (2 ^ 47) mrgm1 = mat33_mod (mat33_power A1p0 (2 ^ 47)) mrgm1"
    by (rule mat33_power_mod_correct)
  then show ?thesis using a by simp
qed

end
